theory Spec2Isabelle
  imports Complex_Main "HOL-Library.Word"
begin

section \<open>Data model of the player\<close>

text \<open>
  The development embeds \<^verbatim>\<open>src/Qt/PlayerPrivate.cpp\<close>: the frame acquisition
  \<^verbatim>\<open>getFrame\<close>, the body of the playback loop of \<^verbatim>\<open>run\<close>, and the life
  cycle functions \<^verbatim>\<open>startPlayback\<close> and \<^verbatim>\<open>stopPlayback\<close>.

  Numbers. The positions are \<^verbatim>\<open>int64_t\<close> and are 64-bit words here, compared
  with the signed orders \<open><s\<close> and \<open>\<le>s\<close> and read with \<open>sint\<close>; \<^verbatim>\<open>speed\<close> and
  \<^verbatim>\<open>max_sleep_ms\<close> are C++ \<^verbatim>\<open>int\<close>, 32-bit words, sign-extended (\<open>scast\<close>)
  where the code promotes them. Signed overflow is undefined in C++; the words wrap
  around, and statements that speak of a mathematical sum say when it is representable.
  A finite \<^verbatim>\<open>double\<close> is the real number it stands for, and every operation on doubles
  gives the exact result rounded to the nearest double, ties to the even significand, as
  IEEE 754 arithmetic does in its default mode. The count of a
  \<^verbatim>\<open>std::chrono::milliseconds\<close> is an implementation-defined signed integer and is an
  \<open>int\<close> here.
\<close>

type_synonym int64_t = "64 word"
type_synonym cint = "32 word"
type_synonym double = real

subsection \<open>Arithmetic in double\<close>

text \<open>The number of binary digits of a positive integer.\<close>

function bit_length :: "int \<Rightarrow> nat" where
  "bit_length n = (if n \<le> 0 then 0 else Suc (bit_length (n div 2)))"
  by pat_completeness auto
termination
  by (relation "measure nat") auto

declare bit_length.simps [simp del]

definition pow2 :: "int \<Rightarrow> real" where
  "pow2 k = (if 0 \<le> k then 2 ^ nat k else 1 / 2 ^ nat (- k))"

text \<open>The binary exponent of a real other than 0: the \<open>e\<close> with \<open>2 ^ e \<le> \<bar>x\<bar> < 2 ^ (e + 1)\<close>.\<close>

definition exponent :: "real \<Rightarrow> int" where
  "exponent x =
     (if 1 \<le> \<bar>x\<bar> then int (bit_length \<lfloor>\<bar>x\<bar>\<rfloor>) - 1
      else - int (bit_length (\<lceil>1 / \<bar>x\<bar>\<rceil> - 1)))"

text \<open>The nearest integer, the even one of two that are equally near.\<close>

definition round_even :: "real \<Rightarrow> int" where
  "round_even y =
     (if y - of_int \<lfloor>y\<rfloor> < 1 / 2 then \<lfloor>y\<rfloor>
      else if 1 / 2 < y - of_int \<lfloor>y\<rfloor> then \<lfloor>y\<rfloor> + 1
      else if even \<lfloor>y\<rfloor> then \<lfloor>y\<rfloor> else \<lfloor>y\<rfloor> + 1)"

text \<open>The double nearest to a real: a significand of 53 binary digits, and below
  \<open>2 ^ -1022\<close> the fixed spacing \<open>2 ^ -1074\<close> of the subnormal numbers. A result beyond the
  largest double would be an infinity in the code; the numbers of this program stay far
  below it (a frame duration is at most \<open>1000 * 2 ^ 31\<close>, a drift below \<open>2 ^ 63\<close>).\<close>

definition round_double :: "real \<Rightarrow> double" where
  "round_double x =
     (if x = 0 then 0
      else of_int (round_even (x / pow2 (max (exponent x) (- 1022) - 52)))
           * pow2 (max (exponent x) (- 1022) - 52))"

definition dadd :: "double \<Rightarrow> double \<Rightarrow> double" where
  "dadd a b = round_double (a + b)"

definition dsub :: "double \<Rightarrow> double \<Rightarrow> double" where
  "dsub a b = round_double (a - b)"

definition dmul :: "double \<Rightarrow> double \<Rightarrow> double" where
  "dmul a b = round_double (a * b)"

definition ddiv :: "double \<Rightarrow> double \<Rightarrow> double" where
  "ddiv a b = round_double (a / b)"

text \<open>The conversion of an integer to \<^verbatim>\<open>double\<close>.\<close>

definition double_of_int :: "int \<Rightarrow> double" where
  "double_of_int n = round_double (of_int n)"

text \<open>A frame, as far as the player looks at it: its number. \<open>addr\<close> stands for the
  identity of the object a \<^verbatim>\<open>std::shared_ptr<Frame>\<close> points to; the empty pointer is
  \<open>None\<close>.\<close>

record Frame =
  addr :: "64 word"
  number :: int64_t

text \<open>The two exception classes \<^verbatim>\<open>getFrame\<close> names in its handlers, and every other
  exception a reader may throw.\<close>

datatype exn = ReaderClosed | OutOfBoundsFrame | OtherException

text \<open>Modelled from the spec: \<^verbatim>\<open>Fraction\<close> (Fraction.h is not part of the sources) is a
  rational number, and \<^verbatim>\<open>ToDouble\<close> is the double nearest to it: the quotient of
  numerator and denominator, formed in \<^verbatim>\<open>double\<close>.\<close>

type_synonym Fraction = rat

definition ToDouble :: "Fraction \<Rightarrow> double" where
  "ToDouble f = round_double (of_rat f)"

record ReaderInfo =
  has_audio :: bool
  has_video :: bool
  fps :: Fraction
  video_length :: int64_t

text \<open>The object \<^verbatim>\<open>reader\<close> points to: its \<^verbatim>\<open>info\<close> and the outcome of
  \<^verbatim>\<open>GetFrame\<close> at a position, a frame pointer or a thrown exception.\<close>

record ReaderBase =
  info :: ReaderInfo
  GetFrame :: "int64_t \<Rightarrow> exn + Frame option"

text \<open>Modelled from the spec: the thread class behind \<^verbatim>\<open>startThread\<close>,
  \<^verbatim>\<open>stopThread\<close> and \<^verbatim>\<open>isThreadRunning\<close> is not part of the sources. A thread is
  running or not; starting and stopping it change that and are recorded as calls, with
  the priority and the timeout they were given.\<close>

datatype thread_id = Player | AudioPlayback | VideoCache | VideoPlayback

datatype thread_call = StartThread thread_id int | StopThread thread_id int

text \<open>The members of \<^verbatim>\<open>PlayerPrivate\<close> the code reads and writes. The collaborating
  objects are represented by the calls the player makes on them, in order:
  \<open>videoCache_positions\<close> are the arguments of \<^verbatim>\<open>videoCache->setCurrentFramePosition\<close>,
  \<open>reader_requests\<close> those of \<^verbatim>\<open>reader->GetFrame\<close>, \<open>videoPlayback_frames\<close> the frames
  assigned to \<^verbatim>\<open>videoPlayback->frame\<close> (each followed by \<^verbatim>\<open>render.signal()\<close>),
  \<open>audioPlayback_seeks\<close> the arguments of \<^verbatim>\<open>audioPlayback->Seek\<close>, \<open>sleeps\<close> the
  durations in milliseconds given to \<^verbatim>\<open>std::this_thread::sleep_for\<close>, and \<open>debug_log\<close> the
  values handed to the logger at line 110, as the call names them.\<close>

record debug_record =
  log_video_frame_diff :: int64_t
  log_video_position :: int64_t
  log_audio_position :: int64_t
  log_speed :: cint
  log_render_time :: double
  log_sleep_time :: int

record PlayerPrivate =
  video_position :: int64_t
  audio_position :: int64_t
  speed :: cint
  last_video_position :: int64_t
  max_sleep_ms :: cint
  frame :: "Frame option"
  videoCache_positions :: "int64_t list"
  reader_requests :: "int64_t list"
  videoPlayback_frames :: "Frame option list"
  audioPlayback_seeks :: "int64_t list"
  sleeps :: "double list"
  debug_log :: "debug_record list"
  running :: "thread_id set"
  thread_calls :: "thread_call list"

text \<open>The constructor: position 1, normal speed, no reader, no frame, nothing running.\<close>

definition PlayerPrivate_new :: PlayerPrivate where
  "PlayerPrivate_new =
     \<lparr>video_position = 1, audio_position = 0, speed = 1, last_video_position = 1,
      max_sleep_ms = 3000, frame = None, videoCache_positions = [], reader_requests = [],
      videoPlayback_frames = [], audioPlayback_seeks = [], sleeps = [], debug_log = [],
      running = {},
      thread_calls = []\<rparr>"

section \<open>Frame acquisition\<close>

text \<open>Lines 146 and 147: the position moves by \<^verbatim>\<open>speed\<close> when the sum lies in
  \<open>[1, video_length]\<close>.\<close>

definition advance :: "ReaderBase \<Rightarrow> PlayerPrivate \<Rightarrow> PlayerPrivate" where
  "advance r s =
     (if 1 \<le>s video_position s + scast (speed s)
         \<and> video_position s + scast (speed s) \<le>s video_length (info r)
      then s\<lparr>video_position := video_position s + scast (speed s)\<rparr>
      else s)"

text \<open>Line 149: the test for returning the frame already held.\<close>

definition cached :: "PlayerPrivate \<Rightarrow> bool" where
  "cached s =
     (case frame s of
        None \<Rightarrow> False
      | Some f \<Rightarrow> number f = video_position s \<and> video_position s = last_video_position s)"

text \<open>Lines 156 to 166: the cache thread is told the position, the reader is asked for the
  frame, and the two exceptions of the handlers end in the empty pointer of line 167. Any
  other exception leaves \<^verbatim>\<open>getFrame\<close>.\<close>

definition fetch :: "ReaderBase \<Rightarrow> PlayerPrivate \<Rightarrow> (exn + Frame option) \<times> PlayerPrivate" where
  "fetch r s =
     (let s' = s\<lparr>videoCache_positions := videoCache_positions s @ [video_position s],
                  reader_requests := reader_requests s @ [video_position s]\<rparr>
      in case GetFrame r (video_position s) of
           Inr f \<Rightarrow> (Inr f, s')
         | Inl ReaderClosed \<Rightarrow> (Inr None, s')
         | Inl OutOfBoundsFrame \<Rightarrow> (Inr None, s')
         | Inl OtherException \<Rightarrow> (Inl OtherException, s'))"

text \<open>\<^verbatim>\<open>PlayerPrivate::getFrame\<close>. The result is the returned pointer (\<open>Inr\<close>) or the
  exception that escapes (\<open>Inl\<close>), with the state the call leaves. \<open>r\<close> is the object
  behind \<^verbatim>\<open>reader\<close>: \<^verbatim>\<open>run\<close> calls \<^verbatim>\<open>getFrame\<close> only after its null test.\<close>

definition getFrame :: "ReaderBase \<Rightarrow> PlayerPrivate \<Rightarrow> (exn + Frame option) \<times> PlayerPrivate" where
  "getFrame r s =
     (let s1 = advance r s
      in if cached s1 then (Inr (frame s1), s1) else fetch r s1)"

section \<open>The playback loop\<close>

text \<open>\<^verbatim>\<open>duration_cast<ms>\<close> of a \<^verbatim>\<open>double\<close> count of milliseconds, and the conversion
  of a \<^verbatim>\<open>double\<close> to \<^verbatim>\<open>int64_t\<close>: both drop the fraction, towards zero.\<close>

definition toward_zero :: "double \<Rightarrow> int" where
  "toward_zero x = (if 0 \<le> x then \<lfloor>x\<rfloor> else \<lceil>x\<rceil>)"

definition duration_cast_ms :: "double \<Rightarrow> int" where
  "duration_cast_ms x = toward_zero x"

text \<open>Line 63: the time one frame stays on screen, \<^verbatim>\<open>1000.0 / fps.ToDouble()\<close>. A frame
  rate of zero gives no finite duration.\<close>

definition frame_duration_of :: "ReaderInfo \<Rightarrow> double option" where
  "frame_duration_of i =
     (if ToDouble (fps i) = 0 then None else Some (ddiv 1000 (ToDouble (fps i))))"

definition sleep_for :: "double \<Rightarrow> PlayerPrivate \<Rightarrow> PlayerPrivate" where
  "sleep_for d s = s\<lparr>sleeps := sleeps s @ [d]\<rparr>"

text \<open>What one iteration of the loop observes of its surroundings: the reader as it is
  during the iteration, the time between \<^verbatim>\<open>time1\<close> and \<^verbatim>\<open>time2\<close> in milliseconds, and
  the position \<^verbatim>\<open>audioPlayback->getCurrentFramePosition()\<close> reports.\<close>

record tick =
  reader :: ReaderBase
  render_time :: double
  getCurrentFramePosition :: int64_t

text \<open>Lines 73 to 75: the test of the pausing code.\<close>

definition pause_guard :: "ReaderBase \<Rightarrow> PlayerPrivate \<Rightarrow> bool" where
  "pause_guard r s \<longleftrightarrow>
     (speed s = 0 \<and> video_position s = last_video_position s)
     \<or> video_length (info r) <s video_position s"

text \<open>Lines 76 to 78: the pausing code itself.\<close>

definition pause :: "double \<Rightarrow> PlayerPrivate \<Rightarrow> PlayerPrivate" where
  "pause frame_duration s = sleep_for frame_duration (s\<lparr>speed := 0\<rparr>)"

text \<open>Lines 82 to 86: the frame goes to the video thread, which is signalled, and the
  position is remembered as the last one displayed.\<close>

definition render :: "PlayerPrivate \<Rightarrow> PlayerPrivate" where
  "render s =
     s\<lparr>videoPlayback_frames := videoPlayback_frames s @ [frame s],
       last_video_position := video_position s\<rparr>"

text \<open>Lines 89 to 98: \<^verbatim>\<open>video_frame_diff\<close>, with the seek of the audio thread when the
  speed is not 1.\<close>

definition sample_audio :: "tick \<Rightarrow> PlayerPrivate \<Rightarrow> int64_t \<times> PlayerPrivate" where
  "sample_audio t s =
     (if has_audio (info (reader t)) \<and> has_video (info (reader t)) then
        let s1 = (if speed s \<noteq> 1
                  then s\<lparr>audioPlayback_seeks := audioPlayback_seeks s @ [video_position s]\<rparr>
                  else s);
            s2 = s1\<lparr>audio_position := getCurrentFramePosition t\<rparr>
        in (video_position s2 - audio_position s2, s2)
      else (0, s))"

text \<open>Line 126, \<^verbatim>\<open>video_position += std::fabs(video_frame_diff) / 2\<close>: \<^verbatim>\<open>std::fabs\<close>
  gives a \<^verbatim>\<open>double\<close>, so both integers are converted to \<^verbatim>\<open>double\<close>, the half and the
  sum are formed in \<^verbatim>\<open>double\<close>, and the sum is converted back to \<^verbatim>\<open>int64_t\<close>, which
  drops its fraction towards zero.\<close>

definition skip_ahead :: "int64_t \<Rightarrow> int64_t \<Rightarrow> int64_t" where
  "skip_ahead position video_frame_diff =
     word_of_int (toward_zero
       (dadd (double_of_int (sint position))
             (ddiv \<bar>double_of_int (sint video_frame_diff)\<bar> 2)))"

text \<open>Lines 113 to 128: the drift adjustment, from the sleep time of line 107 to the sleep
  time of line 134.\<close>

definition adjust_drift ::
    "ReaderInfo \<Rightarrow> double \<Rightarrow> int64_t \<Rightarrow> int \<Rightarrow> PlayerPrivate \<Rightarrow> int \<times> PlayerPrivate" where
  "adjust_drift i frame_duration video_frame_diff sleep_time s =
     (if 0 <s video_frame_diff \<and> has_audio i \<and> has_video i then
        (sleep_time
         + duration_cast_ms (dmul (double_of_int (sint video_frame_diff)) frame_duration), s)
      else if video_frame_diff <s - 10 \<and> has_audio i \<and> has_video i then
        (0, s\<lparr>video_position := skip_ahead (video_position s) video_frame_diff\<rparr>)
      else (sleep_time, s))"

text \<open>Lines 134 to 136: the sleep at the end of the iteration.\<close>

definition end_sleep :: "int \<Rightarrow> PlayerPrivate \<Rightarrow> PlayerPrivate" where
  "end_sleep sleep_time s =
     (if 0 < sleep_time \<and> sleep_time < sint (max_sleep_ms s)
      then sleep_for (of_int sleep_time) s
      else s)"

text \<open>Line 110: the call of the logger, with the values of its arguments.\<close>

definition log_debug :: "int64_t \<Rightarrow> double \<Rightarrow> int \<Rightarrow> PlayerPrivate \<Rightarrow> PlayerPrivate" where
  "log_debug video_frame_diff render_ms sleep_time s =
     s\<lparr>debug_log := debug_log s @
         [\<lparr>log_video_frame_diff = video_frame_diff, log_video_position = video_position s,
           log_audio_position = audio_position s, log_speed = speed s,
           log_render_time = render_ms, log_sleep_time = sleep_time\<rparr>]\<rparr>"

text \<open>Lines 82 to 136, the iteration after the pausing code was passed by.\<close>

definition play :: "double \<Rightarrow> tick \<Rightarrow> PlayerPrivate \<Rightarrow> PlayerPrivate" where
  "play frame_duration t s =
     (let s1 = render s;
          (video_frame_diff, s2) = sample_audio t s1;
          sleep_time = duration_cast_ms (dsub frame_duration (render_time t));
          s3 = log_debug video_frame_diff (render_time t) sleep_time s2;
          (sleep_time', s4) = adjust_drift (info (reader t)) frame_duration video_frame_diff sleep_time s3
      in end_sleep sleep_time' s4)"

text \<open>The local variables of that part of the iteration, as functions of the state at
  line 82: \<^verbatim>\<open>video_frame_diff\<close> as it stands at line 113, and \<^verbatim>\<open>sleep_time\<close> as it
  stands at line 134.\<close>

definition video_frame_diff_at :: "tick \<Rightarrow> PlayerPrivate \<Rightarrow> int64_t" where
  "video_frame_diff_at t s = fst (sample_audio t (render s))"

definition sleep_time_at :: "double \<Rightarrow> tick \<Rightarrow> PlayerPrivate \<Rightarrow> int" where
  "sleep_time_at frame_duration t s =
     fst (adjust_drift (info (reader t)) frame_duration (video_frame_diff_at t s)
            (duration_cast_ms (dsub frame_duration (render_time t)))
            (snd (sample_audio t (render s))))"

text \<open>Line 70, \<^verbatim>\<open>frame = getFrame()\<close>: the assignment happens when \<^verbatim>\<open>getFrame\<close>
  returns; an exception that leaves \<^verbatim>\<open>getFrame\<close> leaves the loop as well (\<open>Inl\<close>).\<close>

definition acquire :: "tick \<Rightarrow> PlayerPrivate \<Rightarrow> exn + PlayerPrivate" where
  "acquire t s =
     (case getFrame (reader t) s of
        (Inl e, s1) \<Rightarrow> Inl e
      | (Inr fr, s1) \<Rightarrow> Inr (s1\<lparr>frame := fr\<rparr>))"

text \<open>Lines 72 to 136: the pausing code, or the rest of the iteration.\<close>

definition after_frame :: "double \<Rightarrow> tick \<Rightarrow> PlayerPrivate \<Rightarrow> PlayerPrivate" where
  "after_frame frame_duration t s =
     (if pause_guard (reader t) s then pause frame_duration s else play frame_duration t s)"

text \<open>One iteration of the loop, lines 66 to 136.\<close>

definition run_iteration :: "double \<Rightarrow> tick \<Rightarrow> PlayerPrivate \<Rightarrow> exn + PlayerPrivate" where
  "run_iteration frame_duration t s =
     (case acquire t s of
        Inl e \<Rightarrow> Inl e
      | Inr s' \<Rightarrow> Inr (after_frame frame_duration t s'))"

text \<open>The loop: one tick for each time \<^verbatim>\<open>threadShouldExit()\<close> answered no. The loop
  ends when the ticks do, or with the exception that leaves an iteration.\<close>

fun run_loop :: "double \<Rightarrow> tick list \<Rightarrow> PlayerPrivate \<Rightarrow> exn + PlayerPrivate" where
  "run_loop frame_duration [] s = Inr s"
| "run_loop frame_duration (t # ts) s =
     (case run_iteration frame_duration t s of
        Inl e \<Rightarrow> Inl e
      | Inr s' \<Rightarrow> run_loop frame_duration ts s')"

section \<open>Starting and stopping\<close>

definition isThreadRunning :: "thread_id \<Rightarrow> PlayerPrivate \<Rightarrow> bool" where
  "isThreadRunning th s \<longleftrightarrow> th \<in> running s"

definition startThread :: "thread_id \<Rightarrow> int \<Rightarrow> PlayerPrivate \<Rightarrow> PlayerPrivate" where
  "startThread th priority s =
     s\<lparr>running := insert th (running s),
       thread_calls := thread_calls s @ [StartThread th priority]\<rparr>"

definition stopThread :: "thread_id \<Rightarrow> int \<Rightarrow> PlayerPrivate \<Rightarrow> PlayerPrivate" where
  "stopThread th timeout s =
     s\<lparr>running := running s - {th},
       thread_calls := thread_calls s @ [StopThread th timeout]\<rparr>"

text \<open>\<^verbatim>\<open>PlayerPrivate::stopPlayback\<close>, lines 183 to 186. \<open>i\<close> is \<^verbatim>\<open>reader->info\<close>, which
  the code reads only behind a running thread.\<close>

definition stopPlayback :: "ReaderInfo \<Rightarrow> PlayerPrivate \<Rightarrow> PlayerPrivate" where
  "stopPlayback i s =
     (let s1 = (if isThreadRunning AudioPlayback s \<and> has_audio i
                then stopThread AudioPlayback (sint (max_sleep_ms s)) s else s);
          s2 = (if isThreadRunning VideoCache s1 \<and> has_video i
                then stopThread VideoCache (sint (max_sleep_ms s1)) s1 else s1);
          s3 = (if isThreadRunning VideoPlayback s2 \<and> has_video i
                then stopThread VideoPlayback (sint (max_sleep_ms s2)) s2 else s2)
      in if isThreadRunning Player s3 then stopThread Player (sint (max_sleep_ms s3)) s3 else s3)"

text \<open>\<^verbatim>\<open>PlayerPrivate::startPlayback\<close>, lines 173 to 177: the returned flag and the state
  left behind.\<close>

definition startPlayback :: "ReaderInfo \<Rightarrow> PlayerPrivate \<Rightarrow> bool \<times> PlayerPrivate" where
  "startPlayback i s =
     (if video_position s <s 0 then (False, s)
      else (True, startThread Player 1 (stopPlayback i s)))"

text \<open>\<^verbatim>\<open>PlayerPrivate::run\<close>, lines 45 to 139. \<open>rd\<close> is the pointer \<^verbatim>\<open>reader\<close>, \<open>None\<close>
  when it is null. With no finite frame duration the loop has no defined behaviour once
  it is entered (\<open>Undefined\<close>).\<close>

datatype failure = Uncaught exn | Undefined

definition run :: "ReaderBase option \<Rightarrow> tick list \<Rightarrow> PlayerPrivate \<Rightarrow> failure + PlayerPrivate" where
  "run rd ticks s =
     (case rd of
        None \<Rightarrow> Inr s
      | Some r \<Rightarrow>
          let s1 = (if has_audio (info r) then startThread AudioPlayback 8 s else s);
              s2 = (if has_video (info r)
                    then startThread VideoPlayback 4 (startThread VideoCache 2 s1) else s1)
          in (case frame_duration_of (info r) of
                None \<Rightarrow> (if ticks = [] then Inr s2 else Inl Undefined)
              | Some frame_duration \<Rightarrow>
                  (case run_loop frame_duration ticks s2 of
                     Inl e \<Rightarrow> Inl (Uncaught e)
                   | Inr s' \<Rightarrow> Inr s')))"

section \<open>Repeated calls and example inputs\<close>

text \<open>\<open>n\<close> calls of \<^verbatim>\<open>getFrame\<close> in a row, with nothing else touching the state in
  between: the results in order, and the state after the last call.\<close>

fun getFrame_times :: "nat \<Rightarrow> ReaderBase \<Rightarrow> PlayerPrivate \<Rightarrow> (exn + Frame option) list \<times> PlayerPrivate" where
  "getFrame_times 0 r s = ([], s)"
| "getFrame_times (Suc n) r s =
     (case getFrame r s of
        (x, s1) \<Rightarrow> (case getFrame_times n r s1 of (xs, s2) \<Rightarrow> (x # xs, s2)))"

text \<open>Concrete readers, ticks and players for the examples below: a reader that has a
  frame for every position, streams of 24, of 2000 and of a quarter frame per second, all
  120 frames long, and players built from the constructor's state.\<close>

definition frames_of :: "int64_t \<Rightarrow> exn + Frame option" where
  "frames_of p = Inr (Some \<lparr>addr = p, number = p\<rparr>)"

definition info_24fps :: ReaderInfo where
  "info_24fps = \<lparr>has_audio = True, has_video = True, fps = 24, video_length = 120\<rparr>"

definition tick_of :: "ReaderInfo \<Rightarrow> double \<Rightarrow> int64_t \<Rightarrow> tick" where
  "tick_of i rt ap =
     \<lparr>reader = \<lparr>info = i, GetFrame = frames_of\<rparr>, render_time = rt, getCurrentFramePosition = ap\<rparr>"

definition player_at :: "int64_t \<Rightarrow> cint \<Rightarrow> int64_t \<Rightarrow> PlayerPrivate" where
  "player_at p v l = PlayerPrivate_new\<lparr>video_position := p, speed := v, last_video_position := l\<rparr>"

definition paused_player :: PlayerPrivate where
  "paused_player = (player_at 7 0 7)\<lparr>frame := Some \<lparr>addr = 7, number = 7\<rparr>\<rparr>"

definition paused_tick :: tick where
  "paused_tick = tick_of info_24fps 3 0"

definition playing_player :: PlayerPrivate where
  "playing_player = (player_at 0 1 1)\<lparr>running := {Player, AudioPlayback, VideoCache, VideoPlayback}\<rparr>"

definition closed_reader :: ReaderBase where
  "closed_reader = \<lparr>info = info_24fps, GetFrame = (\<lambda>p. Inl ReaderClosed)\<rparr>"

definition closed_tick :: tick where
  "closed_tick = \<lparr>reader = closed_reader, render_time = 3, getCurrentFramePosition = 5\<rparr>"

definition trailing_player :: PlayerPrivate where
  "trailing_player = player_at 100 1 100"

definition trailing_tick :: tick where
  "trailing_tick = tick_of info_24fps 0 200"

definition info_slideshow :: ReaderInfo where
  "info_slideshow = \<lparr>has_audio = False, has_video = True, fps = 1 / 4, video_length = 120\<rparr>"

definition playing_tick :: tick where
  "playing_tick = tick_of info_24fps 5 11"

definition info_2000fps :: ReaderInfo where
  "info_2000fps = \<lparr>has_audio = True, has_video = True, fps = 2000, video_length = 120\<rparr>"

definition ahead_tick :: tick where
  "ahead_tick = tick_of info_24fps 0 85"

definition behind_tick :: "int64_t \<Rightarrow> tick" where
  "behind_tick audio = tick_of info_24fps 0 audio"

text \<open>Streams at 24000/1001, 3000 and 49000 frames per second, and the frame durations of
  line 63 for three of the streams, as the doubles they are.\<close>

definition info_ntsc :: ReaderInfo where
  "info_ntsc = \<lparr>has_audio = True, has_video = True, fps = 24000 / 1001, video_length = 120\<rparr>"

definition info_49000fps :: ReaderInfo where
  "info_49000fps = \<lparr>has_audio = True, has_video = True, fps = 49000, video_length = 120\<rparr>"

definition info_3000fps :: ReaderInfo where
  "info_3000fps = \<lparr>has_audio = True, has_video = True, fps = 3000, video_length = 120\<rparr>"

definition fd_24fps :: double where
  "fd_24fps = 5864062014805333 / 140737488355328"

definition fd_ntsc :: double where
  "fd_ntsc = 2934963038410069 / 70368744177664"

definition fd_49000fps :: double where
  "fd_49000fps = 5882252574524729 / 288230376151711744"

definition ntsc_tick :: tick where
  "ntsc_tick = tick_of info_ntsc 0 76"

definition fast_tick :: tick where
  "fast_tick = tick_of info_49000fps 0 10"

section \<open>Projections of the steps\<close>

lemma video_position_fetch: "video_position (snd (fetch r s)) = video_position s"
  by (simp add: fetch_def Let_def split: sum.split exn.split)

lemma video_position_getFrame:
  "video_position (snd (getFrame r s)) = video_position (advance r s)"
  by (simp add: getFrame_def Let_def video_position_fetch)

lemma sint_speed: "sint (scast (x :: cint) :: int64_t) = sint x"
  by (rule sint_up_scast) (simp add: is_up)

lemma sint_cint_bounds: "- (2 ^ 31) \<le> sint (x :: cint) \<and> sint x < 2 ^ 31"
  using sint_ge [of x] sint_lt [of x] by simp

lemma sint_int64_bounds: "- (2 ^ 63) \<le> sint (x :: int64_t) \<and> sint x < 2 ^ 63"
  using sint_ge [of x] sint_lt [of x] by simp

lemma sint_sum_representable:
  fixes p :: int64_t and v :: cint
  assumes "- (2 ^ 63) \<le> sint p + sint v" and "sint p + sint v < 2 ^ 63"
  shows "sint (p + scast v) = sint p + sint v"
  using assms by (simp add: sint_word_add sint_speed signed_take_bit_int_eq_self)

lemma advance_position:
  "video_position (advance r s) =
     (if 1 \<le>s video_position s + scast (speed s)
         \<and> video_position s + scast (speed s) \<le>s video_length (info r)
      then video_position s + scast (speed s) else video_position s)"
  by (simp add: advance_def)

lemma advance_other:
  "speed (advance r s) = speed s" "last_video_position (advance r s) = last_video_position s"
  "frame (advance r s) = frame s" "audio_position (advance r s) = audio_position s"
  "reader_requests (advance r s) = reader_requests s"
  "videoCache_positions (advance r s) = videoCache_positions s"
  "videoPlayback_frames (advance r s) = videoPlayback_frames s"
  "audioPlayback_seeks (advance r s) = audioPlayback_seeks s"
  "sleeps (advance r s) = sleeps s" "max_sleep_ms (advance r s) = max_sleep_ms s"
  "running (advance r s) = running s" "thread_calls (advance r s) = thread_calls s"
  "debug_log (advance r s) = debug_log s"
  by (simp_all add: advance_def)

lemma fetch_state:
  "snd (fetch r s) = s\<lparr>videoCache_positions := videoCache_positions s @ [video_position s],
                        reader_requests := reader_requests s @ [video_position s]\<rparr>"
  by (simp add: fetch_def Let_def split: sum.split exn.split)

lemma getFrame_state:
  "snd (getFrame r s) =
     (if cached (advance r s) then advance r s
      else (advance r s)\<lparr>videoCache_positions := videoCache_positions s @ [video_position (advance r s)],
                         reader_requests := reader_requests s @ [video_position (advance r s)]\<rparr>)"
  by (simp add: getFrame_def Let_def fetch_state advance_other)

lemma acquire_Inr:
  "acquire t s = Inr s' \<longleftrightarrow>
     (\<exists>fr. fst (getFrame (reader t) s) = Inr fr \<and> s' = (snd (getFrame (reader t) s))\<lparr>frame := fr\<rparr>)"
  by (auto simp: acquire_def split: prod.splits sum.splits)

lemma acquire_keeps:
  assumes "acquire t s = Inr s'"
  shows "video_position s' = video_position (advance (reader t) s)"
    and "speed s' = speed s" and "last_video_position s' = last_video_position s"
    and "audio_position s' = audio_position s"
    and "videoPlayback_frames s' = videoPlayback_frames s"
    and "audioPlayback_seeks s' = audioPlayback_seeks s"
    and "sleeps s' = sleeps s" and "max_sleep_ms s' = max_sleep_ms s"
    and "running s' = running s" and "thread_calls s' = thread_calls s"
    and "debug_log s' = debug_log s"
proof -
  from assms obtain fr where "s' = (snd (getFrame (reader t) s))\<lparr>frame := fr\<rparr>"
    by (auto simp: acquire_Inr)
  then show "video_position s' = video_position (advance (reader t) s)"
    and "speed s' = speed s" and "last_video_position s' = last_video_position s"
    and "audio_position s' = audio_position s"
    and "videoPlayback_frames s' = videoPlayback_frames s"
    and "audioPlayback_seeks s' = audioPlayback_seeks s"
    and "sleeps s' = sleeps s" and "max_sleep_ms s' = max_sleep_ms s"
    and "running s' = running s" and "thread_calls s' = thread_calls s"
    and "debug_log s' = debug_log s"
    by (simp_all add: getFrame_state advance_other)
qed

lemma sample_audio_diff:
  "fst (sample_audio t s) =
     (if has_audio (info (reader t)) \<and> has_video (info (reader t))
      then video_position s - getCurrentFramePosition t else 0)"
  by (simp add: sample_audio_def Let_def)

lemma video_frame_diff_at_eq:
  "video_frame_diff_at t s =
     (if has_audio (info (reader t)) \<and> has_video (info (reader t))
      then video_position s - getCurrentFramePosition t else 0)"
  by (simp add: video_frame_diff_at_def sample_audio_diff render_def)

lemma sample_audio_keeps:
  "video_position (snd (sample_audio t s)) = video_position s"
  "sleeps (snd (sample_audio t s)) = sleeps s"
  "max_sleep_ms (snd (sample_audio t s)) = max_sleep_ms s"
  by (simp_all add: sample_audio_def Let_def)

lemma adjust_drift_keeps:
  "sleeps (snd (adjust_drift i fd d st s)) = sleeps s"
  "max_sleep_ms (snd (adjust_drift i fd d st s)) = max_sleep_ms s"
  by (simp_all add: adjust_drift_def)

lemma adjust_drift_position:
  "video_position (snd (adjust_drift i fd d st s)) =
     (if \<not> 0 <s d \<and> d <s - 10 \<and> has_audio i \<and> has_video i
      then skip_ahead (video_position s) d else video_position s)"
  by (simp add: adjust_drift_def)

lemma adjust_drift_sleep_time:
  "fst (adjust_drift i fd d st s) =
     (if 0 <s d \<and> has_audio i \<and> has_video i
      then st + duration_cast_ms (dmul (double_of_int (sint d)) fd)
      else if d <s - 10 \<and> has_audio i \<and> has_video i then 0 else st)"
  by (simp add: adjust_drift_def)

lemma adjust_drift_debug_log: "debug_log (snd (adjust_drift i fd d st s)) = debug_log s"
  by (simp add: adjust_drift_def)

lemma log_debug_keeps:
  "video_position (log_debug d rt st s) = video_position s"
  "sleeps (log_debug d rt st s) = sleeps s"
  "max_sleep_ms (log_debug d rt st s) = max_sleep_ms s"
  by (simp_all add: log_debug_def)

lemma play_eq:
  "play fd t s =
     end_sleep (sleep_time_at fd t s)
       (snd (adjust_drift (info (reader t)) fd (video_frame_diff_at t s)
              (duration_cast_ms (dsub fd (render_time t)))
              (log_debug (video_frame_diff_at t s) (render_time t)
                 (duration_cast_ms (dsub fd (render_time t))) (snd (sample_audio t (render s))))))"
proof -
  obtain d s2 where sa: "sample_audio t (render s) = (d, s2)"
    by (cases "sample_audio t (render s)")
  obtain st s4 where ad: "adjust_drift (info (reader t)) fd d (duration_cast_ms (dsub fd (render_time t)))
      (log_debug d (render_time t) (duration_cast_ms (dsub fd (render_time t))) s2) = (st, s4)"
    by (cases "adjust_drift (info (reader t)) fd d (duration_cast_ms (dsub fd (render_time t)))
      (log_debug d (render_time t) (duration_cast_ms (dsub fd (render_time t))) s2)")
  have "st = sleep_time_at fd t s"
    using arg_cong [OF ad, of fst]
    by (simp add: sleep_time_at_def video_frame_diff_at_def sa adjust_drift_sleep_time)
  then show ?thesis
    by (simp add: play_def video_frame_diff_at_def sa ad Let_def)
qed

lemma end_sleep_debug_log: "debug_log (end_sleep st s) = debug_log s"
  by (simp add: end_sleep_def sleep_for_def)

lemma play_debug_log:
  "debug_log (play fd t s) =
     debug_log s @
       [\<lparr>log_video_frame_diff = video_frame_diff_at t s,
         log_video_position = video_position s,
         log_audio_position =
           (if has_audio (info (reader t)) \<and> has_video (info (reader t))
            then getCurrentFramePosition t else audio_position s),
         log_speed = speed s,
         log_render_time = render_time t,
         log_sleep_time = duration_cast_ms (dsub fd (render_time t))\<rparr>]"
  by (simp add: play_eq end_sleep_debug_log adjust_drift_debug_log log_debug_def
      sample_audio_def render_def Let_def)

lemma end_sleep_keeps: "video_position (end_sleep st s) = video_position s"
  by (simp add: end_sleep_def sleep_for_def)

lemma play_sleeps:
  "sleeps (play fd t s) =
     sleeps s @ (if 0 < sleep_time_at fd t s \<and> sleep_time_at fd t s < sint (max_sleep_ms s)
                 then [of_int (sleep_time_at fd t s)] else [])"
  by (simp add: play_eq end_sleep_def sleep_for_def adjust_drift_keeps log_debug_keeps
      sample_audio_keeps render_def)

lemma play_position:
  "video_position (play fd t s) =
     (if video_frame_diff_at t s <s - 10 \<and> has_audio (info (reader t)) \<and> has_video (info (reader t))
      then skip_ahead (video_position s) (video_frame_diff_at t s) else video_position s)"
  by (auto simp add: play_eq end_sleep_keeps adjust_drift_position log_debug_keeps
      sample_audio_keeps render_def word_sless_alt)

section \<open>Dropping the fraction\<close>

lemma toward_zero_nonneg: "0 \<le> x \<Longrightarrow> toward_zero x = \<lfloor>x\<rfloor>"
  by (simp add: toward_zero_def)

lemma toward_zero_ge_1: "1 \<le> toward_zero x \<longleftrightarrow> 1 \<le> x"
proof (cases "0 \<le> x")
  case True
  then show ?thesis by (simp add: toward_zero_def le_floor_iff)
next
  case False
  then have "\<lceil>x\<rceil> \<le> 0" by (simp add: ceiling_le_iff)
  with False show ?thesis by (simp add: toward_zero_def)
qed

lemma toward_zero_small: "0 \<le> x \<Longrightarrow> x < 1 \<Longrightarrow> toward_zero x = 0"
  by (simp add: toward_zero_def floor_eq_iff)

lemma toward_zero_between:
  "\<bar>of_int (toward_zero x)\<bar> \<le> \<bar>x\<bar> \<and> \<bar>x - of_int (toward_zero x)\<bar> < 1"
proof (cases "0 \<le> x")
  case True
  then have eq: "toward_zero x = \<lfloor>x\<rfloor>"
    by (simp add: toward_zero_def)
  have "(0 :: real) \<le> of_int \<lfloor>x\<rfloor>"
    using True by simp
  moreover have "of_int \<lfloor>x\<rfloor> \<le> x" and "x < of_int \<lfloor>x\<rfloor> + 1"
    by linarith+
  ultimately show ?thesis
    unfolding eq by linarith
next
  case False
  then have eq: "toward_zero x = \<lceil>x\<rceil>"
    by (simp add: toward_zero_def)
  have "\<lceil>x\<rceil> \<le> 0"
    using False by (simp add: ceiling_le_iff)
  then have "(of_int \<lceil>x\<rceil> :: real) \<le> 0"
    by simp
  moreover have "x \<le> of_int \<lceil>x\<rceil>" and "of_int \<lceil>x\<rceil> < x + 1"
    by linarith+
  ultimately show ?thesis
    unfolding eq using False by linarith
qed

section \<open>The advance step\<close>

lemma getFrame_moves:
  assumes "1 \<le>s video_position s + scast (speed s)"
    and "video_position s + scast (speed s) \<le>s video_length (info r)"
  shows "video_position (snd (getFrame r s)) = video_position s + scast (speed s)"
  using assms by (simp add: video_position_getFrame advance_position)

lemma getFrame_holds:
  assumes "\<not> (1 \<le>s video_position s + scast (speed s)
              \<and> video_position s + scast (speed s) \<le>s video_length (info r))"
  shows "video_position (snd (getFrame r s)) = video_position s"
  using assms by (simp only: video_position_getFrame advance_position if_False)

lemma sint_sum_overflow:
  fixes p :: int64_t and v :: cint
  assumes "2 ^ 63 \<le> sint p + sint v"
  shows "sint (p + scast v) < 0"
proof -
  let ?k = "sint p + sint v"
  have ub: "?k < 2 ^ 64"
    using sint_int64_bounds [of p] sint_cint_bounds [of v] by simp
  have "sint (p + scast v) = (?k + 2 ^ 63) mod 2 ^ 64 - 2 ^ 63"
    by (simp add: sint_word_add sint_speed signed_take_bit_eq_take_bit_shift take_bit_eq_mod)
  also have "(?k + 2 ^ 63) mod 2 ^ 64 = (?k + 2 ^ 63 - 2 ^ 64) mod 2 ^ 64"
    by (metis mod_diff_right_eq mod_self diff_zero)
  also have "\<dots> = ?k + 2 ^ 63 - 2 ^ 64"
    using assms ub by (intro mod_pos_pos_trivial) simp_all
  finally show ?thesis using ub by simp
qed

text \<open>Claim C1. One call of \<^verbatim>\<open>getFrame\<close> at position \<open>p\<close> and speed \<open>v\<close>: when
  \<open>1 \<le> p + v \<le> video_length\<close> the position becomes exactly \<open>p + v\<close>; when \<open>p + v\<close> lies
  outside \<open>[1, video_length]\<close> the position stays \<open>p\<close>, whatever the reader answers. The
  first two parts read \<open>p + v\<close> as the sum of the integers (the second for a sum that does
  not fall below the least \<^verbatim>\<open>int64_t\<close>; a sum above the greatest wraps to a negative
  number and is rejected as well); the third reads it as the 64-bit sum that the code
  compares, and needs no side condition.\<close>

theorem getFrame_advance:
  "(1 \<le> sint (video_position s) + sint (speed s)
      \<and> sint (video_position s) + sint (speed s) \<le> sint (video_length (info r))
      \<longrightarrow> sint (video_position (snd (getFrame r s))) = sint (video_position s) + sint (speed s))
   \<and> (\<not> (1 \<le> sint (video_position s) + sint (speed s)
           \<and> sint (video_position s) + sint (speed s) \<le> sint (video_length (info r)))
        \<and> - (2 ^ 63) \<le> sint (video_position s) + sint (speed s)
      \<longrightarrow> video_position (snd (getFrame r s)) = video_position s)
   \<and> (\<not> (1 \<le>s video_position s + scast (speed s)
           \<and> video_position s + scast (speed s) \<le>s video_length (info r))
      \<longrightarrow> video_position (snd (getFrame r s)) = video_position s)"
proof -
  let ?k = "sint (video_position s) + sint (speed s)"
  let ?q = "video_position s + scast (speed s)"
  let ?L = "video_length (info r)"
  have inside: "sint (video_position (snd (getFrame r s))) = ?k"
    if a: "1 \<le> ?k \<and> ?k \<le> sint ?L"
  proof -
    have "?k < 2 ^ 63"
      using a sint_int64_bounds [of ?L] by simp
    with a have eq: "sint ?q = ?k"
      by (intro sint_sum_representable) simp_all
    with a have "1 \<le>s ?q" and "?q \<le>s ?L"
      by (simp_all add: word_sle_eq)
    then have "video_position (snd (getFrame r s)) = ?q"
      by (rule getFrame_moves)
    with eq show ?thesis by simp
  qed
  have outside: "video_position (snd (getFrame r s)) = video_position s"
    if a: "\<not> (1 \<le> ?k \<and> ?k \<le> sint ?L) \<and> - (2 ^ 63) \<le> ?k"
  proof -
    have "\<not> (1 \<le> sint ?q \<and> sint ?q \<le> sint ?L)"
    proof (cases "?k < 2 ^ 63")
      case True
      with a have "sint ?q = ?k"
        by (intro sint_sum_representable) simp_all
      with a show ?thesis by simp
    next
      case False
      then have "sint ?q < 0"
        by (intro sint_sum_overflow) simp
      then show ?thesis by simp
    qed
    then have "\<not> (1 \<le>s ?q \<and> ?q \<le>s ?L)"
      by (simp add: word_sle_eq)
    then show ?thesis by (rule getFrame_holds)
  qed
  from inside outside getFrame_holds [of s r] show ?thesis
    by blast
qed

text \<open>The three parts at length 120: from 5 at speed 2 to 7; at 120 and speed 1 the
  position holds; at 1 and speed \<open>-1\<close> it holds.\<close>

theorem getFrame_advance_witness:
  "sint (video_position (snd (getFrame \<lparr>info = info_24fps, GetFrame = frames_of\<rparr> (player_at 5 2 5)))) = 7
   \<and> video_position (snd (getFrame \<lparr>info = info_24fps, GetFrame = frames_of\<rparr> (player_at 120 1 120))) = 120
   \<and> video_position (snd (getFrame \<lparr>info = info_24fps, GetFrame = frames_of\<rparr> (player_at 1 (- 1) 1))) = 1"
  using getFrame_advance [of "player_at 5 2 5" "\<lparr>info = info_24fps, GetFrame = frames_of\<rparr>"]
    getFrame_advance [of "player_at 120 1 120" "\<lparr>info = info_24fps, GetFrame = frames_of\<rparr>"]
    getFrame_advance [of "player_at 1 (- 1) 1" "\<lparr>info = info_24fps, GetFrame = frames_of\<rparr>"]
  by (simp add: player_at_def PlayerPrivate_new_def info_24fps_def)

section \<open>Reuse of the held frame\<close>

lemma advance_paused: "speed s = 0 \<Longrightarrow> advance r s = s"
  by (simp add: advance_def)

lemma cached_iff:
  "cached s \<longleftrightarrow>
     (\<exists>f. frame s = Some f \<and> number f = video_position s \<and> video_position s = last_video_position s)"
  by (simp add: cached_def split: option.split)

lemma getFrame_cached_result: "cached (advance r s) \<Longrightarrow> getFrame r s = (Inr (frame s), advance r s)"
  by (simp add: getFrame_def Let_def advance_other)

lemma getFrame_requests:
  "reader_requests (snd (getFrame r s)) =
     (if cached (advance r s) then reader_requests s
      else reader_requests s @ [video_position (advance r s)])"
  by (simp add: getFrame_state advance_other)

lemma getFrame_paused:
  assumes "speed s = 0" and "frame s = Some f" and "number f = video_position s"
    and "video_position s = last_video_position s"
  shows "getFrame r s = (Inr (Some f), s)"
proof -
  have "advance r s = s"
    using assms(1) by (rule advance_paused)
  moreover have "cached s"
    using assms by (simp add: cached_iff)
  ultimately show ?thesis
    using getFrame_cached_result [of r s] assms(2) by simp
qed

lemma getFrame_times_paused:
  assumes "getFrame r s = (x, s)"
  shows "getFrame_times n r s = (replicate n x, s)"
  using assms by (induction n) simp_all

text \<open>Claim C3. \<^verbatim>\<open>getFrame\<close> asks the reader for nothing exactly when a frame is held whose
  number equals the position after the advance and that position equals
  \<open>last_video_position\<close>; it then returns the held frame and gives the cache thread no
  position either. In particular, with speed 0, a held frame of the number of the position and
  the position equal to \<open>last_video_position\<close>, any number \<open>n\<close> of calls in a row return that
  same frame each time and leave the whole state, the list of requests to the reader
  included, as it was.\<close>

theorem getFrame_reuse:
  "(reader_requests (snd (getFrame r s)) = reader_requests s
      \<longleftrightarrow> (\<exists>f. frame s = Some f \<and> number f = video_position (snd (getFrame r s))
                \<and> video_position (snd (getFrame r s)) = last_video_position s))
   \<and> (reader_requests (snd (getFrame r s)) = reader_requests s
      \<longrightarrow> fst (getFrame r s) = Inr (frame s)
          \<and> videoCache_positions (snd (getFrame r s)) = videoCache_positions s)
   \<and> (speed s = 0 \<and> frame s = Some f \<and> number f = video_position s
        \<and> video_position s = last_video_position s
      \<longrightarrow> getFrame_times n r s = (replicate n (Inr (Some f)), s))"
proof -
  let ?p = "video_position (snd (getFrame r s))"
  have p: "?p = video_position (advance r s)"
    by (rule video_position_getFrame)
  have c: "cached (advance r s)
      \<longleftrightarrow> (\<exists>f. frame s = Some f \<and> number f = ?p \<and> ?p = last_video_position s)"
    by (simp add: cached_iff advance_other p)
  have r: "reader_requests (snd (getFrame r s)) = reader_requests s \<longleftrightarrow> cached (advance r s)"
    by (simp add: getFrame_requests)
  have "fst (getFrame r s) = Inr (frame s)
      \<and> videoCache_positions (snd (getFrame r s)) = videoCache_positions s"
    if "cached (advance r s)"
    using that by (simp add: getFrame_cached_result advance_other)
  moreover have "getFrame_times n r s = (replicate n (Inr (Some f)), s)"
    if "speed s = 0 \<and> frame s = Some f \<and> number f = video_position s
        \<and> video_position s = last_video_position s"
    using that by (intro getFrame_times_paused getFrame_paused) simp_all
  ultimately show ?thesis
    using c r by blast
qed

text \<open>Three calls on a player paused at frame 7 that holds frame 7.\<close>

theorem getFrame_reuse_witness:
  "getFrame_times 3 \<lparr>info = info_24fps, GetFrame = frames_of\<rparr> paused_player
     = ([Inr (Some \<lparr>addr = 7, number = 7\<rparr>), Inr (Some \<lparr>addr = 7, number = 7\<rparr>),
         Inr (Some \<lparr>addr = 7, number = 7\<rparr>)], paused_player)
   \<and> reader_requests (snd (getFrame \<lparr>info = info_24fps, GetFrame = frames_of\<rparr> paused_player)) = []
   \<and> fst (getFrame \<lparr>info = info_24fps, GetFrame = frames_of\<rparr> paused_player)
       = Inr (Some \<lparr>addr = 7, number = 7\<rparr>)"
  using getFrame_reuse [of "\<lparr>info = info_24fps, GetFrame = frames_of\<rparr>" paused_player
      "\<lparr>addr = 7, number = 7\<rparr>" 3]
  by (simp add: paused_player_def player_at_def PlayerPrivate_new_def numeral_3_eq_3
      video_position_getFrame advance_def)

section \<open>The pausing code\<close>

lemma run_iteration_acquired:
  "acquire t s = Inr s1 \<Longrightarrow> run_iteration fd t s = Inr (after_frame fd t s1)"
  by (simp add: run_iteration_def)

text \<open>Claim C6. An iteration in which, after \<^verbatim>\<open>frame = getFrame()\<close>, the speed is 0 and
  the position equals \<open>last_video_position\<close>, or the position is beyond \<open>video_length\<close>:
  the state \<open>s1\<close> of line 72 changes in two members only, \<open>speed\<close> becomes 0 and one sleep
  of exactly \<open>frame_duration\<close> is added; no frame went to the video thread, and
  \<open>last_video_position\<close>, \<open>audio_position\<close> and the seeks of the audio thread are those
  of the start of the iteration.\<close>

theorem pause_iteration:
  assumes "acquire t s = Inr s1"
    and "(speed s1 = 0 \<and> video_position s1 = last_video_position s1)
         \<or> video_length (info (reader t)) <s video_position s1"
  shows "run_iteration frame_duration t s
           = Inr (s1\<lparr>speed := 0, sleeps := sleeps s @ [frame_duration]\<rparr>)
         \<and> videoPlayback_frames s1 = videoPlayback_frames s
         \<and> last_video_position s1 = last_video_position s
         \<and> audio_position s1 = audio_position s
         \<and> audioPlayback_seeks s1 = audioPlayback_seeks s"
proof -
  have "pause_guard (reader t) s1"
    using assms(2) by (simp add: pause_guard_def)
  then have "after_frame frame_duration t s1 = s1\<lparr>speed := 0, sleeps := sleeps s1 @ [frame_duration]\<rparr>"
    by (simp add: after_frame_def pause_def sleep_for_def)
  then show ?thesis
    using assms(1) by (simp add: run_iteration_acquired acquire_keeps)
qed

text \<open>The paused player: one sleep of a frame duration at 24 frames per second, nothing else.\<close>

theorem pause_iteration_witness:
  "acquire paused_tick paused_player = Inr paused_player
   \<and> speed paused_player = 0
   \<and> video_position paused_player = last_video_position paused_player
   \<and> run_iteration fd_24fps paused_tick paused_player
       = Inr (paused_player\<lparr>speed := 0, sleeps := [fd_24fps]\<rparr>)"
proof -
  have a: "acquire paused_tick paused_player = Inr paused_player"
    by (simp add: acquire_def getFrame_def advance_def cached_def paused_tick_def tick_of_def
        paused_player_def player_at_def PlayerPrivate_new_def)
  have g: "(speed paused_player = 0 \<and> video_position paused_player = last_video_position paused_player)
         \<or> video_length (info (reader paused_tick)) <s video_position paused_player"
    by (simp add: paused_player_def player_at_def PlayerPrivate_new_def)
  show ?thesis
    using pause_iteration [OF a g, of fd_24fps] a
    by (simp add: paused_player_def player_at_def PlayerPrivate_new_def)
qed

section \<open>Starting playback\<close>

lemma stopPlayback_calls:
  "thread_calls (stopPlayback i s) =
     thread_calls s
     @ (if AudioPlayback \<in> running s \<and> has_audio i
        then [StopThread AudioPlayback (sint (max_sleep_ms s))] else [])
     @ (if VideoCache \<in> running s \<and> has_video i
        then [StopThread VideoCache (sint (max_sleep_ms s))] else [])
     @ (if VideoPlayback \<in> running s \<and> has_video i
        then [StopThread VideoPlayback (sint (max_sleep_ms s))] else [])
     @ (if Player \<in> running s then [StopThread Player (sint (max_sleep_ms s))] else [])"
  by (simp add: stopPlayback_def Let_def stopThread_def isThreadRunning_def)

lemma stopPlayback_running:
  "running (stopPlayback i s) =
     running s - ({Player} \<union> (if has_audio i then {AudioPlayback} else {})
                  \<union> (if has_video i then {VideoCache, VideoPlayback} else {}))"
  by (auto simp add: stopPlayback_def Let_def stopThread_def isThreadRunning_def)

text \<open>Claim C7. \<^verbatim>\<open>startPlayback\<close> returns false exactly when the position is negative, and
  then leaves the state as it is. Otherwise, position 0 included, it returns true after
  \<^verbatim>\<open>stopPlayback\<close> and then \<^verbatim>\<open>startThread(1)\<close>: the calls are the stops of the threads
  that were running (audio with audio present, cache and video with video present, the
  player's own), each with \<open>max_sleep_ms\<close>, followed by the start of the player's
  thread.\<close>

theorem startPlayback_result:
  "(fst (startPlayback i s) = False \<longleftrightarrow> sint (video_position s) < 0)
   \<and> (sint (video_position s) < 0 \<longrightarrow> startPlayback i s = (False, s))
   \<and> (0 \<le> sint (video_position s) \<longrightarrow>
        startPlayback i s = (True, startThread Player 1 (stopPlayback i s))
        \<and> thread_calls (snd (startPlayback i s))
            = thread_calls s
              @ (if AudioPlayback \<in> running s \<and> has_audio i
                 then [StopThread AudioPlayback (sint (max_sleep_ms s))] else [])
              @ (if VideoCache \<in> running s \<and> has_video i
                 then [StopThread VideoCache (sint (max_sleep_ms s))] else [])
              @ (if VideoPlayback \<in> running s \<and> has_video i
                 then [StopThread VideoPlayback (sint (max_sleep_ms s))] else [])
              @ (if Player \<in> running s then [StopThread Player (sint (max_sleep_ms s))] else [])
              @ [StartThread Player 1]
        \<and> running (snd (startPlayback i s))
            = insert Player (running s - ({Player} \<union> (if has_audio i then {AudioPlayback} else {})
                \<union> (if has_video i then {VideoCache, VideoPlayback} else {}))))"
proof -
  have neg: "video_position s <s 0 \<longleftrightarrow> sint (video_position s) < 0"
    by (simp add: word_sless_alt)
  show ?thesis
    by (simp add: startPlayback_def neg startThread_def stopPlayback_running stopPlayback_calls)
qed

text \<open>Position \<open>-1\<close> is refused. Position 0 with all four threads running: four stops, then
  the start.\<close>

theorem startPlayback_result_witness:
  "startPlayback info_24fps (player_at (- 1) 1 1) = (False, player_at (- 1) 1 1)
   \<and> fst (startPlayback info_24fps playing_player) = True
   \<and> thread_calls (snd (startPlayback info_24fps playing_player))
       = [StopThread AudioPlayback 3000, StopThread VideoCache 3000, StopThread VideoPlayback 3000,
          StopThread Player 3000, StartThread Player 1]
   \<and> running (snd (startPlayback info_24fps playing_player)) = {Player}"
proof -
  have n: "sint (video_position (player_at (- 1) 1 1)) < 0"
    by (simp add: player_at_def)
  have p: "0 \<le> sint (video_position playing_player)"
    by (simp add: playing_player_def player_at_def)
  have f: "running playing_player = {Player, AudioPlayback, VideoCache, VideoPlayback}"
    "thread_calls playing_player = []" "sint (max_sleep_ms playing_player) = 3000"
    "has_audio info_24fps" "has_video info_24fps"
    by (simp_all add: playing_player_def player_at_def PlayerPrivate_new_def info_24fps_def)
  have calls: "thread_calls playing_player
              @ (if AudioPlayback \<in> running playing_player \<and> has_audio info_24fps
                 then [StopThread AudioPlayback (sint (max_sleep_ms playing_player))] else [])
              @ (if VideoCache \<in> running playing_player \<and> has_video info_24fps
                 then [StopThread VideoCache (sint (max_sleep_ms playing_player))] else [])
              @ (if VideoPlayback \<in> running playing_player \<and> has_video info_24fps
                 then [StopThread VideoPlayback (sint (max_sleep_ms playing_player))] else [])
              @ (if Player \<in> running playing_player
                 then [StopThread Player (sint (max_sleep_ms playing_player))] else [])
              @ [StartThread Player 1]
       = [StopThread AudioPlayback 3000, StopThread VideoCache 3000, StopThread VideoPlayback 3000,
          StopThread Player 3000, StartThread Player 1]"
    by (simp add: f)
  have left: "insert Player (running playing_player
                - ({Player} \<union> (if has_audio info_24fps then {AudioPlayback} else {})
                   \<union> (if has_video info_24fps then {VideoCache, VideoPlayback} else {})))
       = {Player}"
    by (simp add: f)
  from startPlayback_result [of info_24fps "player_at (- 1) 1 1"] n
  have 1: "startPlayback info_24fps (player_at (- 1) 1 1) = (False, player_at (- 1) 1 1)"
    by blast
  from startPlayback_result [of info_24fps playing_player] p
  have "startPlayback info_24fps playing_player
          = (True, startThread Player 1 (stopPlayback info_24fps playing_player))"
    by blast
  then have 2: "fst (startPlayback info_24fps playing_player) = True"
    by simp
  from startPlayback_result [of info_24fps playing_player] p
  have 3: "thread_calls (snd (startPlayback info_24fps playing_player))
       = [StopThread AudioPlayback 3000, StopThread VideoCache 3000, StopThread VideoPlayback 3000,
          StopThread Player 3000, StartThread Player 1]"
    unfolding calls by blast
  from startPlayback_result [of info_24fps playing_player] p
  have 4: "running (snd (startPlayback info_24fps playing_player)) = {Player}"
    unfolding left by blast
  from 1 2 3 4 show ?thesis
    by (intro conjI)
qed

section \<open>Exceptions of the reader\<close>

lemma fetch_result:
  "fst (fetch r s) =
     (case GetFrame r (video_position s) of
        Inr f \<Rightarrow> Inr f
      | Inl ReaderClosed \<Rightarrow> Inr None
      | Inl OutOfBoundsFrame \<Rightarrow> Inr None
      | Inl OtherException \<Rightarrow> Inl OtherException)"
  by (simp add: fetch_def Let_def split: sum.split exn.split)

lemma getFrame_result:
  "fst (getFrame r s) =
     (if cached (advance r s) then Inr (frame s) else fst (fetch r (advance r s)))"
  by (simp add: getFrame_def Let_def advance_other)

lemma getFrame_escapes:
  "fst (getFrame r s) = Inl e \<longleftrightarrow>
     \<not> cached (advance r s) \<and> e = OtherException
     \<and> GetFrame r (video_position (advance r s)) = Inl OtherException"
  by (auto simp add: getFrame_result fetch_result split: sum.splits exn.splits)

text \<open>Claim C8. \<^verbatim>\<open>ReaderClosed\<close> and \<^verbatim>\<open>OutOfBoundsFrame\<close> never leave \<^verbatim>\<open>getFrame\<close>. When
  the reader is asked and throws one of them, \<^verbatim>\<open>getFrame\<close> returns the empty pointer,
  the iteration goes on with it, and the loop continues with the next tick. They are the only
  exceptions handled: any other exception of the reader leaves \<^verbatim>\<open>getFrame\<close> and the
  loop.\<close>

theorem getFrame_soft_failure:
  "fst (getFrame (reader t) s) \<noteq> Inl ReaderClosed
   \<and> fst (getFrame (reader t) s) \<noteq> Inl OutOfBoundsFrame
   \<and> (\<not> cached (advance (reader t) s)
        \<and> (GetFrame (reader t) (video_position (advance (reader t) s)) = Inl ReaderClosed
            \<or> GetFrame (reader t) (video_position (advance (reader t) s)) = Inl OutOfBoundsFrame)
      \<longrightarrow> fst (getFrame (reader t) s) = Inr None
          \<and> acquire t s = Inr ((snd (getFrame (reader t) s))\<lparr>frame := None\<rparr>)
          \<and> run_loop fd (t # ts) s
              = run_loop fd ts (after_frame fd t ((snd (getFrame (reader t) s))\<lparr>frame := None\<rparr>)))
   \<and> (\<not> cached (advance (reader t) s)
        \<and> GetFrame (reader t) (video_position (advance (reader t) s)) = Inl OtherException
      \<longrightarrow> fst (getFrame (reader t) s) = Inl OtherException
          \<and> run_loop fd (t # ts) s = Inl OtherException)"
proof -
  let ?r = "reader t"
  let ?g = "GetFrame ?r (video_position (advance ?r s))"
  have 1: "fst (getFrame ?r s) \<noteq> Inl ReaderClosed" "fst (getFrame ?r s) \<noteq> Inl OutOfBoundsFrame"
    by (simp_all add: getFrame_escapes)
  have 2: "fst (getFrame ?r s) = Inr None
          \<and> acquire t s = Inr ((snd (getFrame ?r s))\<lparr>frame := None\<rparr>)
          \<and> run_loop fd (t # ts) s
              = run_loop fd ts (after_frame fd t ((snd (getFrame ?r s))\<lparr>frame := None\<rparr>))"
    if h: "\<not> cached (advance ?r s) \<and> (?g = Inl ReaderClosed \<or> ?g = Inl OutOfBoundsFrame)"
  proof -
    from h have res: "fst (getFrame ?r s) = Inr None"
      by (auto simp add: getFrame_result fetch_result)
    then have acq: "acquire t s = Inr ((snd (getFrame ?r s))\<lparr>frame := None\<rparr>)"
      by (cases "getFrame ?r s") (simp add: acquire_def)
    then show ?thesis
      using res by (simp add: run_iteration_def)
  qed
  have 3: "fst (getFrame ?r s) = Inl OtherException \<and> run_loop fd (t # ts) s = Inl OtherException"
    if h: "\<not> cached (advance ?r s) \<and> ?g = Inl OtherException"
  proof -
    from h have res: "fst (getFrame ?r s) = Inl OtherException"
      by (simp add: getFrame_escapes)
    then have "acquire t s = Inl OtherException"
      by (cases "getFrame ?r s") (simp add: acquire_def)
    then show ?thesis
      using res by (simp add: run_iteration_def)
  qed
  from 1 2 3 show ?thesis
    by blast
qed

text \<open>A reader that was closed: the empty pointer, and the loop finishes the iteration.\<close>

theorem getFrame_soft_failure_witness:
  "\<not> cached (advance (reader closed_tick) (player_at 5 1 5))
   \<and> GetFrame (reader closed_tick) (video_position (advance (reader closed_tick) (player_at 5 1 5)))
       = Inl ReaderClosed
   \<and> fst (getFrame (reader closed_tick) (player_at 5 1 5)) = Inr None
   \<and> run_loop fd_24fps [closed_tick] (player_at 5 1 5)
       = Inr (after_frame fd_24fps closed_tick
               ((snd (getFrame (reader closed_tick) (player_at 5 1 5)))\<lparr>frame := None\<rparr>))"
proof -
  have c: "\<not> cached (advance (reader closed_tick) (player_at 5 1 5))"
    by (simp add: cached_def advance_def player_at_def PlayerPrivate_new_def)
  have g: "GetFrame (reader closed_tick) (video_position (advance (reader closed_tick) (player_at 5 1 5)))
       = Inl ReaderClosed"
    by (simp add: closed_tick_def closed_reader_def)
  show ?thesis
    using getFrame_soft_failure [of closed_tick "player_at 5 1 5" fd_24fps "[]"] c g
    by simp
qed

section \<open>Changes of the position in an iteration\<close>

text \<open>Claim C2, as stated, fails. With audio and video present, position 100, speed 1, length 120
  and the audio thread at frame 200, one iteration moves the position to 150: by 50, not by
  the speed, and beyond \<open>video_length\<close>. \<^verbatim>\<open>getFrame\<close> moves it to 101, and the drift
  adjustment of lines 124 to 128 adds half of the 99 frames the video is behind.\<close>

theorem position_jump_counterexample:
  "map_sum id video_position (run_iteration fd_24fps trailing_tick trailing_player) = Inr 150
   \<and> video_position trailing_player = 100 \<and> speed trailing_player = 1
   \<and> video_length (info (reader trailing_tick)) = 120"
  by code_simp

lemma after_frame_position:
  "video_position (after_frame fd t s) =
     (if \<not> pause_guard (reader t) s \<and> video_frame_diff_at t s <s - 10
         \<and> has_audio (info (reader t)) \<and> has_video (info (reader t))
      then skip_ahead (video_position s) (video_frame_diff_at t s) else video_position s)"
  by (simp add: after_frame_def pause_def sleep_for_def play_position)

lemma not_zero_below: "\<not> (0 :: int64_t) <s - 10"
  by (simp add: word_sless_alt)

lemma after_frame_skip:
  "video_position (after_frame fd t s) =
     (if \<not> pause_guard (reader t) s
         \<and> has_audio (info (reader t)) \<and> has_video (info (reader t))
         \<and> video_position s - getCurrentFramePosition t <s - 10
      then skip_ahead (video_position s) (video_position s - getCurrentFramePosition t)
      else video_position s)"
proof (cases "has_audio (info (reader t)) \<and> has_video (info (reader t))")
  case True
  then show ?thesis
    by (simp add: after_frame_position video_frame_diff_at_eq)
next
  case False
  then have nb: "(has_audio (info (reader t)) \<and> has_video (info (reader t))) = False"
    by simp
  have "video_frame_diff_at t s = 0"
    by (simp only: video_frame_diff_at_eq nb if_False)
  with False show ?thesis
    by (auto simp add: after_frame_position not_zero_below)
qed

text \<open>Claim C2, amended. In an iteration that ends, \<^verbatim>\<open>getFrame\<close> leaves the position or adds
  \<open>speed\<close> to it, the latter only with the sum in \<open>[1, video_length]\<close>. The only other
  change of the position in the iteration is the skip of the drift adjustment, taken with audio
  and video present and the video more than 10 frames behind the audio; the position it
  gives is not bounded by \<open>video_length\<close>.\<close>

theorem iteration_position:
  assumes "run_iteration fd t s = Inr s'"
  shows "(video_position (advance (reader t) s) = video_position s
          \<or> video_position (advance (reader t) s) = video_position s + scast (speed s)
            \<and> 1 \<le>s video_position s + scast (speed s)
            \<and> video_position s + scast (speed s) \<le>s video_length (info (reader t)))
       \<and> (video_position s' = video_position (advance (reader t) s)
          \<or> has_audio (info (reader t)) \<and> has_video (info (reader t))
            \<and> video_position (advance (reader t) s) - getCurrentFramePosition t <s - 10
            \<and> video_position s'
                = skip_ahead (video_position (advance (reader t) s))
                    (video_position (advance (reader t) s) - getCurrentFramePosition t))"
proof -
  from assms obtain s1 where acq: "acquire t s = Inr s1" and s': "s' = after_frame fd t s1"
    by (auto simp add: run_iteration_def split: sum.splits)
  have p1: "video_position s1 = video_position (advance (reader t) s)"
    using acq by (rule acquire_keeps)
  have "video_position s' = video_position s1
        \<or> has_audio (info (reader t)) \<and> has_video (info (reader t))
          \<and> video_position s1 - getCurrentFramePosition t <s - 10
          \<and> video_position s' = skip_ahead (video_position s1) (video_position s1 - getCurrentFramePosition t)"
    unfolding s' after_frame_skip by simp
  then show ?thesis
    unfolding p1 by (simp add: advance_position)
qed

text \<open>The iteration of the counterexample: 101 after \<^verbatim>\<open>getFrame\<close>, 150 after the skip.\<close>

theorem iteration_position_witness:
  "run_iteration fd_24fps trailing_tick trailing_player
     = Inr (projr (run_iteration fd_24fps trailing_tick trailing_player))
   \<and> video_position (advance (reader trailing_tick) trailing_player) = 101
   \<and> video_position (projr (run_iteration fd_24fps trailing_tick trailing_player)) = skip_ahead 101 (- 99)
   \<and> skip_ahead 101 (- 99) = 150"
proof -
  have r: "run_iteration fd_24fps trailing_tick trailing_player
     = Inr (projr (run_iteration fd_24fps trailing_tick trailing_player))"
    by code_simp
  have a: "video_position (advance (reader trailing_tick) trailing_player) = 101"
    by code_simp
  have g: "getCurrentFramePosition trailing_tick = 200"
    by code_simp
  have n: "video_position (projr (run_iteration fd_24fps trailing_tick trailing_player)) \<noteq> 101"
    by code_simp
  have k: "skip_ahead 101 (- 99) = 150"
    by code_simp
  have d: "(101 :: int64_t) - 200 = - 99"
    by simp
  from iteration_position [OF r]
  have "video_position (projr (run_iteration fd_24fps trailing_tick trailing_player)) = 101
      \<or> has_audio (info (reader trailing_tick)) \<and> has_video (info (reader trailing_tick))
        \<and> (101 :: int64_t) - 200 <s - 10
        \<and> video_position (projr (run_iteration fd_24fps trailing_tick trailing_player))
            = skip_ahead 101 (101 - 200)"
    unfolding a g by (rule conjunct2)
  with n have "video_position (projr (run_iteration fd_24fps trailing_tick trailing_player))
      = skip_ahead 101 (- 99)"
    unfolding d by blast
  with r a k show ?thesis
    by (intro conjI)
qed

section \<open>Sleeps of an iteration\<close>

text \<open>Claim C9, as stated, fails in its second half. A stream of one frame in four seconds has a
  frame duration of 4000 ms; the pausing code of lines 76 to 78 sleeps that long, with
  \<open>max_sleep_ms\<close> at 3000.\<close>

theorem pause_sleep_counterexample:
  "frame_duration_of info_slideshow = Some 4000
   \<and> map_sum id sleeps (run_iteration 4000 (tick_of info_slideshow 0 0) paused_player) = Inr [4000]
   \<and> sint (max_sleep_ms paused_player) = 3000"
proof -
  have "frame_duration_of info_slideshow = Some 4000"
    by code_simp
  moreover have "map_sum id sleeps (run_iteration 4000 (tick_of info_slideshow 0 0) paused_player) = Inr [4000]"
    by code_simp
  moreover have "sint (max_sleep_ms paused_player) = 3000"
    by code_simp
  ultimately show ?thesis
    by (intro conjI)
qed

lemma after_frame_sleeps:
  "sleeps (after_frame fd t s) =
     sleeps s @ (if pause_guard (reader t) s then [fd]
                 else if 0 < sleep_time_at fd t s \<and> sleep_time_at fd t s < sint (max_sleep_ms s)
                 then [of_int (sleep_time_at fd t s)] else [])"
  by (simp add: after_frame_def pause_def sleep_for_def play_sleeps)

text \<open>Claim C9, amended. An iteration sleeps once or not at all. When the pausing code is taken
  it sleeps \<open>frame_duration\<close>, and \<open>max_sleep_ms\<close> plays no part. Otherwise it sleeps at
  its end exactly when \<open>0 < sleep_time < max_sleep_ms\<close>, both strict, and then for
  \<open>sleep_time\<close> milliseconds: every sleep at the end of an iteration is shorter than
  \<open>max_sleep_ms\<close>.\<close>

theorem iteration_sleeps:
  assumes "acquire t s = Inr s1"
  shows "run_iteration fd t s = Inr (after_frame fd t s1)
       \<and> sleeps (after_frame fd t s1) =
           sleeps s @ (if pause_guard (reader t) s1 then [fd]
                       else if 0 < sleep_time_at fd t s1 \<and> sleep_time_at fd t s1 < sint (max_sleep_ms s)
                       then [of_int (sleep_time_at fd t s1)] else [])"
  using assms by (simp add: run_iteration_acquired after_frame_sleeps acquire_keeps)

text \<open>At 24 frames per second with 5 ms of rendering and no drift, the iteration sleeps 36 ms.\<close>

theorem iteration_sleeps_witness:
  "acquire playing_tick (player_at 10 1 10) = Inr (projr (acquire playing_tick (player_at 10 1 10)))
   \<and> sleep_time_at fd_24fps playing_tick (projr (acquire playing_tick (player_at 10 1 10))) = 36
   \<and> sleeps (after_frame fd_24fps playing_tick (projr (acquire playing_tick (player_at 10 1 10)))) = [36]"
proof -
  let ?s1 = "projr (acquire playing_tick (player_at 10 1 10))"
  have a: "acquire playing_tick (player_at 10 1 10) = Inr ?s1"
    by code_simp
  have v: "sleep_time_at fd_24fps playing_tick ?s1 = 36"
    by code_simp
  have e: "sleeps (player_at 10 1 10)
        @ (if pause_guard (reader playing_tick) ?s1 then [fd_24fps]
           else if 0 < sleep_time_at fd_24fps playing_tick ?s1
                   \<and> sleep_time_at fd_24fps playing_tick ?s1 < sint (max_sleep_ms (player_at 10 1 10))
           then [of_int (sleep_time_at fd_24fps playing_tick ?s1)] else []) = [36]"
    by code_simp
  from iteration_sleeps [OF a, of fd_24fps]
  have "sleeps (after_frame fd_24fps playing_tick ?s1) = [36]"
    unfolding e by (rule conjunct2)
  with a v show ?thesis
    by (intro conjI)
qed

section \<open>Rounding to double\<close>

lemma pow2_positive: "0 < pow2 k"
  by (simp add: pow2_def)

lemma round_even_nonneg: "0 \<le> y \<Longrightarrow> 0 \<le> round_even y"
  by (simp add: round_even_def)

lemma round_even_of_int: "round_even (of_int z) = z"
  by (simp add: round_even_def)

lemma round_double_nonneg: "0 \<le> x \<Longrightarrow> 0 \<le> round_double x"
  by (simp add: round_double_def round_even_nonneg pow2_positive less_imp_le)

lemma bit_length_le: "n < 2 ^ k \<Longrightarrow> bit_length n \<le> k"
proof (induction k arbitrary: n)
  case 0
  then show ?case
    by (simp add: bit_length.simps [of n])
next
  case (Suc k)
  then have "n div 2 < 2 ^ k"
    by simp
  then have "bit_length (n div 2) \<le> k"
    by (rule Suc.IH)
  then show ?case
    by (simp add: bit_length.simps [of n])
qed

lemma exponent_le:
  assumes "\<bar>x\<bar> < 2 ^ 52"
  shows "exponent x \<le> 51"
proof (cases "1 \<le> \<bar>x\<bar>")
  case True
  have "\<lfloor>\<bar>x\<bar>\<rfloor> < 2 ^ 52"
    using assms by (simp add: floor_less_iff)
  then have "bit_length \<lfloor>\<bar>x\<bar>\<rfloor> \<le> 52"
    by (rule bit_length_le)
  with True show ?thesis
    by (simp add: exponent_def)
next
  case False
  then show ?thesis
    by (simp add: exponent_def)
qed

lemma round_double_half:
  assumes "x = of_int m / 2" and "\<bar>x\<bar> < 2 ^ 52"
  shows "round_double x = x"
proof (cases "x = 0")
  case True
  then show ?thesis
    by (simp add: round_double_def)
next
  case False
  define k where "k = max (exponent x) (- 1022) - 52"
  define j where "j = nat (- k)"
  have "exponent x \<le> 51"
    using assms(2) by (rule exponent_le)
  then have "k \<le> - 1"
    by (simp add: k_def)
  then have j: "0 < j" and kj: "k = - int j"
    by (simp_all add: j_def)
  then obtain i where i: "j = Suc i"
    by (cases j) simp_all
  have p: "pow2 k = 1 / 2 ^ j"
    using \<open>k \<le> - 1\<close> by (simp add: pow2_def j_def)
  have "x / pow2 k = of_int (m * 2 ^ i)"
    by (simp add: p assms(1) i)
  then have "round_even (x / pow2 k) = m * 2 ^ i"
    by (simp only: round_even_of_int)
  then have "of_int (round_even (x / pow2 k)) * pow2 k = x"
    by (simp add: p assms(1) i)
  with False show ?thesis
    by (simp add: round_double_def k_def)
qed

lemma double_of_int_exact:
  assumes "\<bar>n\<bar> < 2 ^ 52"
  shows "double_of_int n = of_int n"
proof -
  have "(of_int n :: real) = of_int (2 * n) / 2"
    by simp
  moreover have "\<bar>of_int n :: real\<bar> < 2 ^ 52"
    using assms by (metis of_int_abs of_int_less_numeral_power_cancel_iff)
  ultimately show ?thesis
    unfolding double_of_int_def by (rule round_double_half)
qed

lemma double_of_int_nonneg: "0 \<le> n \<Longrightarrow> 0 \<le> double_of_int n"
  by (simp add: double_of_int_def round_double_nonneg)

lemma dmul_nonneg: "0 \<le> a \<Longrightarrow> 0 \<le> b \<Longrightarrow> 0 \<le> dmul a b"
  by (simp add: dmul_def round_double_nonneg)

text \<open>The rounding at work, on frame durations of line 63 and products of line 121. At 24
  frames per second the frame duration is the double next below 125/3, and a drift of 15
  frames gives a product of exactly 625 ms; at 24000/1001 frames per second a drift of 24 gives
  a product just below 1001 ms; at 3000 frames per second three frame durations are 1 ms; at
  49000 frames per second 49 frame durations stay below 1 ms.\<close>

lemma double_examples:
  "frame_duration_of info_24fps = Some (5864062014805333 / 140737488355328)"
  "dmul (double_of_int 15) (5864062014805333 / 140737488355328) = 625"
  "frame_duration_of info_ntsc = Some (2934963038410069 / 70368744177664)"
  "dmul (double_of_int 24) (2934963038410069 / 70368744177664) = 8804889115230207 / 8796093022208"
  "frame_duration_of info_3000fps = Some (6004799503160661 / 18014398509481984)"
  "dmul (double_of_int 3) (6004799503160661 / 18014398509481984) = 1"
  "frame_duration_of info_49000fps = Some (5882252574524729 / 288230376151711744)"
  "dmul (double_of_int 49) (5882252574524729 / 288230376151711744) = 9007199254740991 / 9007199254740992"
  by code_simp+

section \<open>The rest of an iteration\<close>

lemma run_iteration_play:
  assumes "acquire t s = Inr s1" and "\<not> pause_guard (reader t) s1"
  shows "run_iteration fd t s = Inr (play fd t s1)"
  using assms by (simp add: run_iteration_acquired after_frame_def)

lemma diff_positive: "0 <s (d :: int64_t) \<Longrightarrow> 0 < sint d"
  by (simp add: word_sless_alt)

lemma sleep_time_at_ahead:
  assumes "0 <s video_frame_diff_at t s"
  shows "sleep_time_at fd t s =
     duration_cast_ms (dsub fd (render_time t))
     + duration_cast_ms (dmul (double_of_int (sint (video_frame_diff_at t s))) fd)"
proof -
  have both: "has_audio (info (reader t)) \<and> has_video (info (reader t))"
  proof (rule ccontr)
    assume "\<not> ?thesis"
    then have "video_frame_diff_at t s = 0"
      by (auto simp add: video_frame_diff_at_eq)
    with assms show False
      by (simp add: word_sless_alt)
  qed
  with assms show ?thesis
    by (simp add: sleep_time_at_def adjust_drift_sleep_time)
qed

lemma sleep_time_at_near:
  assumes "\<not> 0 <s video_frame_diff_at t s" and "\<not> video_frame_diff_at t s <s - 10"
  shows "sleep_time_at fd t s = duration_cast_ms (dsub fd (render_time t))"
  using assms by (simp add: sleep_time_at_def adjust_drift_sleep_time)

lemma sleep_time_at_behind:
  assumes "has_audio (info (reader t))" and "has_video (info (reader t))"
    and "video_frame_diff_at t s <s - 10"
  shows "sleep_time_at fd t s = 0"
proof -
  have "\<not> 0 <s video_frame_diff_at t s"
    using assms(3) by (simp add: word_sless_alt)
  with assms show ?thesis
    by (simp add: sleep_time_at_def adjust_drift_sleep_time)
qed

lemma play_logged_sleep_time:
  "map log_sleep_time (debug_log (play fd t s))
     = map log_sleep_time (debug_log s) @ [duration_cast_ms (dsub fd (render_time t))]"
  by (simp add: play_debug_log)

lemma play_logged_diff:
  "map log_video_frame_diff (debug_log (play fd t s))
     = map log_video_frame_diff (debug_log s) @ [video_frame_diff_at t s]"
  by (simp add: play_debug_log)

section \<open>The skip ahead\<close>

lemma toward_zero_half:
  assumes "0 \<le> p"
  shows "toward_zero (of_int p + \<bar>of_int d\<bar> / 2) = p + \<bar>d\<bar> div 2"
proof -
  have "0 \<le> (of_int p :: real) + \<bar>of_int d\<bar> / 2"
    using assms by simp
  then have "toward_zero (of_int p + \<bar>of_int d\<bar> / 2) = \<lfloor>(of_int p :: real) + \<bar>of_int d\<bar> / 2\<rfloor>"
    by (rule toward_zero_nonneg)
  also have "\<dots> = p + \<lfloor>(of_int \<bar>d\<bar> :: real) / of_int 2\<rfloor>"
    by simp
  also have "\<lfloor>(of_int \<bar>d\<bar> :: real) / of_int 2\<rfloor> = \<bar>d\<bar> div 2"
    by (rule floor_divide_of_int_eq)
  finally show ?thesis .
qed

lemma sint_of_int64:
  "- (2 ^ 63) \<le> k \<Longrightarrow> k < 2 ^ 63 \<Longrightarrow> sint (word_of_int k :: int64_t) = k"
  by (simp add: sint_sbintrunc' signed_take_bit_int_eq_self)

lemma double_sum_exact:
  fixes p d :: int
  assumes "0 \<le> p" and "p < 2 ^ 51" and "\<bar>d\<bar> < 2 ^ 51"
  shows "dadd (double_of_int p) (ddiv \<bar>double_of_int d\<bar> 2) = of_int p + \<bar>of_int d\<bar> / 2"
proof -
  have p: "double_of_int p = of_int p"
    using assms(1,2) by (intro double_of_int_exact) simp
  have d: "double_of_int d = of_int d"
    using assms(3) by (intro double_of_int_exact) simp
  have dr: "\<bar>of_int d :: real\<bar> < 2 ^ 51"
    using assms(3) by (metis of_int_abs of_int_less_numeral_power_cancel_iff)
  have pr: "(of_int p :: real) < 2 ^ 51" "(0 :: real) \<le> of_int p"
    using assms(1,2) by simp_all
  have "(\<bar>of_int d\<bar> / 2 :: real) = of_int \<bar>d\<bar> / 2"
    by simp
  moreover have "\<bar>\<bar>of_int d\<bar> / 2 :: real\<bar> < 2 ^ 52"
    using dr by simp
  ultimately have h: "round_double (\<bar>of_int d\<bar> / 2) = \<bar>of_int d\<bar> / 2"
    by (rule round_double_half)
  have "(of_int p + \<bar>of_int d\<bar> / 2 :: real) = of_int (2 * p + \<bar>d\<bar>) / 2"
    by simp
  moreover have "\<bar>of_int p + \<bar>of_int d\<bar> / 2 :: real\<bar> < 2 ^ 52"
    using dr pr by simp
  ultimately have "round_double (of_int p + \<bar>of_int d\<bar> / 2) = of_int p + \<bar>of_int d\<bar> / 2"
    by (rule round_double_half)
  then show ?thesis
    by (simp only: dadd_def ddiv_def p d h)
qed

lemma skip_ahead_nonneg:
  assumes "0 \<le> sint p" and "sint p < 2 ^ 51" and "\<bar>sint d\<bar> < 2 ^ 51"
  shows "sint (skip_ahead p d) = sint p + \<bar>sint d\<bar> div 2"
proof -
  have "skip_ahead p d = word_of_int (sint p + \<bar>sint d\<bar> div 2)"
    by (simp only: skip_ahead_def double_sum_exact [OF assms] toward_zero_half [OF assms(1)])
  moreover have "- (2 ^ 63) \<le> sint p + \<bar>sint d\<bar> div 2"
    using assms(1) by simp
  moreover have "sint p + \<bar>sint d\<bar> div 2 < 2 ^ 63"
    using assms(2,3) by simp
  ultimately show ?thesis
    by (simp only: sint_of_int64)
qed

lemma advance_nonneg:
  assumes "0 \<le> sint (video_position s)"
  shows "0 \<le> sint (video_position (advance r s))"
  using assms by (simp add: advance_position word_sle_eq)

text \<open>Claim C5. In an iteration that passes the pausing code with audio and video present and
  \<open>video_frame_diff < -10\<close>, at a position that is not negative, the position grows by
  exactly \<open>\<bar>video_frame_diff\<bar> div 2\<close>, the sleep time is 0 and the iteration does not
  sleep. A position in the loop is not negative: \<^verbatim>\<open>startPlayback\<close> refuses a negative one,
  the advance leaves a position or moves it into \<open>[1, video_length]\<close>, and the skip adds.
  Below \<open>2 ^ 51\<close> every number of line 126 is a double, so that nothing is rounded.\<close>

theorem skip_iteration:
  assumes "acquire t s = Inr s1" and "\<not> pause_guard (reader t) s1"
    and "has_audio (info (reader t))" and "has_video (info (reader t))"
    and "video_frame_diff_at t s1 <s - 10"
    and "0 \<le> sint (video_position s1)" and "sint (video_position s1) < 2 ^ 51"
    and "- (2 ^ 51) < sint (video_frame_diff_at t s1)"
  shows "run_iteration fd t s = Inr (play fd t s1)
       \<and> sint (video_position (play fd t s1))
           = sint (video_position s1) + \<bar>sint (video_frame_diff_at t s1)\<bar> div 2
       \<and> sleep_time_at fd t s1 = 0
       \<and> sleeps (play fd t s1) = sleeps s"
proof -
  have run: "run_iteration fd t s = Inr (play fd t s1)"
    using assms(1,2) by (rule run_iteration_play)
  have "sint (video_frame_diff_at t s1) < 0"
    using assms(5) by (simp add: word_sless_alt)
  then have "\<bar>sint (video_frame_diff_at t s1)\<bar> < 2 ^ 51"
    using assms(8) by simp
  with assms(6,7)
  have "sint (skip_ahead (video_position s1) (video_frame_diff_at t s1))
      = sint (video_position s1) + \<bar>sint (video_frame_diff_at t s1)\<bar> div 2"
    by (rule skip_ahead_nonneg)
  then have pos: "sint (video_position (play fd t s1))
      = sint (video_position s1) + \<bar>sint (video_frame_diff_at t s1)\<bar> div 2"
    using assms(3,4,5) by (simp add: play_position)
  have zero: "sleep_time_at fd t s1 = 0"
    using assms(3,4,5) by (rule sleep_time_at_behind)
  have "sleeps (play fd t s1) = sleeps s1"
    by (simp add: play_sleeps zero)
  also have "\<dots> = sleeps s"
    using assms(1) by (rule acquire_keeps)
  finally show ?thesis
    using run pos zero by simp
qed

text \<open>From position 101 after \<^verbatim>\<open>getFrame\<close>: a drift of \<open>-20\<close> gives 111, ten more; a drift of
  \<open>-15\<close> gives 108, seven more, without a sleep.\<close>

theorem skip_iteration_witness:
  "frame_duration_of info_24fps = Some fd_24fps
   \<and> sint (video_position (projr (acquire (behind_tick 121) (player_at 100 1 100)))) = 101
   \<and> sint (video_frame_diff_at (behind_tick 121) (projr (acquire (behind_tick 121) (player_at 100 1 100)))) = - 20
   \<and> sint (video_position (play fd_24fps (behind_tick 121)
              (projr (acquire (behind_tick 121) (player_at 100 1 100))))) = 111
   \<and> sint (video_frame_diff_at (behind_tick 116) (projr (acquire (behind_tick 116) (player_at 100 1 100)))) = - 15
   \<and> sint (video_position (play fd_24fps (behind_tick 116)
              (projr (acquire (behind_tick 116) (player_at 100 1 100))))) = 108
   \<and> sleeps (play fd_24fps (behind_tick 116) (projr (acquire (behind_tick 116) (player_at 100 1 100)))) = []
   \<and> run_iteration fd_24fps (behind_tick 116) (player_at 100 1 100)
       = Inr (play fd_24fps (behind_tick 116) (projr (acquire (behind_tick 116) (player_at 100 1 100))))"
proof -
  let ?s = "player_at 100 1 100"
  let ?a = "projr (acquire (behind_tick 121) ?s)"
  let ?b = "projr (acquire (behind_tick 116) ?s)"
  have fd: "frame_duration_of info_24fps = Some fd_24fps"
    by code_simp
  have a: "acquire (behind_tick 121) ?s = Inr ?a"
    by code_simp
  have b: "acquire (behind_tick 116) ?s = Inr ?b"
    by code_simp
  have ga: "\<not> pause_guard (reader (behind_tick 121)) ?a"
    by code_simp
  have gb: "\<not> pause_guard (reader (behind_tick 116)) ?b"
    by code_simp
  have au: "has_audio (info (reader (behind_tick 121)))" "has_video (info (reader (behind_tick 121)))"
    "has_audio (info (reader (behind_tick 116)))" "has_video (info (reader (behind_tick 116)))"
    by (simp_all add: behind_tick_def tick_of_def info_24fps_def)
  have da: "video_frame_diff_at (behind_tick 121) ?a <s - 10"
    by code_simp
  have db: "video_frame_diff_at (behind_tick 116) ?b <s - 10"
    by code_simp
  have va: "sint (video_position ?a) = 101" "sint (video_frame_diff_at (behind_tick 121) ?a) = - 20"
    by code_simp+
  have vb: "sint (video_position ?b) = 101" "sint (video_frame_diff_at (behind_tick 116) ?b) = - 15"
    by code_simp+
  have sl: "sleeps ?s = []"
    by (simp add: player_at_def PlayerPrivate_new_def)
  have pa: "0 \<le> sint (video_position ?a)" "sint (video_position ?a) < 2 ^ 51"
    "- (2 ^ 51) < sint (video_frame_diff_at (behind_tick 121) ?a)"
    unfolding va by simp_all
  have pb: "0 \<le> sint (video_position ?b)" "sint (video_position ?b) < 2 ^ 51"
    "- (2 ^ 51) < sint (video_frame_diff_at (behind_tick 116) ?b)"
    unfolding vb by simp_all
  note A = skip_iteration [OF a ga au(1,2) da pa, of fd_24fps]
  note B = skip_iteration [OF b gb au(3,4) db pb, of fd_24fps]
  from A have "sint (video_position (play fd_24fps (behind_tick 121) ?a))
      = sint (video_position ?a) + \<bar>sint (video_frame_diff_at (behind_tick 121) ?a)\<bar> div 2"
    by (rule conjunct1 [OF conjunct2])
  then have 1: "sint (video_position (play fd_24fps (behind_tick 121) ?a)) = 111"
    unfolding va by simp
  from B have "sint (video_position (play fd_24fps (behind_tick 116) ?b))
      = sint (video_position ?b) + \<bar>sint (video_frame_diff_at (behind_tick 116) ?b)\<bar> div 2"
    by (rule conjunct1 [OF conjunct2])
  then have 2: "sint (video_position (play fd_24fps (behind_tick 116) ?b)) = 108"
    unfolding vb by simp
  from B have "sleeps (play fd_24fps (behind_tick 116) ?b) = sleeps ?s"
    by (rule conjunct2 [OF conjunct2 [OF conjunct2]])
  then have 3: "sleeps (play fd_24fps (behind_tick 116) ?b) = []"
    unfolding sl .
  from B have 4: "run_iteration fd_24fps (behind_tick 116) ?s = Inr (play fd_24fps (behind_tick 116) ?b)"
    by (rule conjunct1)
  from fd va 1 vb(2) 2 3 4 show ?thesis
    by (intro conjI)
qed

section \<open>The sleep time under drift\<close>

text \<open>Claim C4, as stated, fails. At 2000 frames per second the frame duration is 1/2 ms. With
  the video one frame ahead and no render time, the difference of line 107 and the product of
  line 121 are both 1/2, and \<open>sleep_time\<close> is 0 before and after the adjustment: it is neither
  the sum 1 nor greater than the unadjusted 1/2, and the iteration, which logged a drift of 1
  and a sleep time of 0, does not sleep.\<close>

theorem drift_sleep_counterexample:
  "frame_duration_of info_2000fps = Some (1 / 2)
   \<and> map_sum id debug_log (run_iteration (1 / 2) (tick_of info_2000fps 0 10) (player_at 10 1 10))
       = Inr [\<lparr>log_video_frame_diff = 1, log_video_position = 11, log_audio_position = 10,
               log_speed = 1, log_render_time = 0, log_sleep_time = 0\<rparr>]
   \<and> map_sum id sleeps (run_iteration (1 / 2) (tick_of info_2000fps 0 10) (player_at 10 1 10)) = Inr []
   \<and> sleep_time_at (1 / 2) (tick_of info_2000fps 0 10)
        (projr (acquire (tick_of info_2000fps 0 10) (player_at 10 1 10))) = 0
   \<and> dsub (1 / 2) (render_time (tick_of info_2000fps 0 10)) = 1 / 2
   \<and> dmul (double_of_int (sint (1 :: int64_t))) (1 / 2) = 1 / 2"
proof -
  have "frame_duration_of info_2000fps = Some (1 / 2)"
    by code_simp
  moreover have "map_sum id debug_log (run_iteration (1 / 2) (tick_of info_2000fps 0 10) (player_at 10 1 10))
       = Inr [\<lparr>log_video_frame_diff = 1, log_video_position = 11, log_audio_position = 10,
               log_speed = 1, log_render_time = 0, log_sleep_time = 0\<rparr>]"
    by code_simp
  moreover have "map_sum id sleeps (run_iteration (1 / 2) (tick_of info_2000fps 0 10) (player_at 10 1 10)) = Inr []"
    by code_simp
  moreover have "sleep_time_at (1 / 2) (tick_of info_2000fps 0 10)
        (projr (acquire (tick_of info_2000fps 0 10) (player_at 10 1 10))) = 0"
    by code_simp
  moreover have "dsub (1 / 2) (render_time (tick_of info_2000fps 0 10)) = 1 / 2"
    by code_simp
  moreover have "dmul (double_of_int (sint (1 :: int64_t))) (1 / 2) = 1 / 2"
    by code_simp
  ultimately show ?thesis
    by (intro conjI)
qed

text \<open>Claim C4, amended. In an iteration that passes the pausing code with audio and video
  present and \<open>video_frame_diff > 0\<close>, the sleep time is the whole milliseconds of
  \<open>frame_duration - render_time\<close>, which is the value the iteration logs, plus the whole
  milliseconds of \<open>video_frame_diff * frame_duration\<close>, both formed in \<^verbatim>\<open>double\<close> and cut
  towards zero; the iteration sleeps that long when it lies between 0 and \<open>max_sleep_ms\<close>.
  The sleep time is greater than the logged one exactly when the product is at least 1 ms,
  and never less when the frame duration is not negative.\<close>

theorem drift_sleep_time:
  assumes "acquire t s = Inr s1" and "\<not> pause_guard (reader t) s1"
    and "has_audio (info (reader t))" and "has_video (info (reader t))"
    and "0 <s video_frame_diff_at t s1"
  shows "run_iteration fd t s = Inr (play fd t s1)
       \<and> map log_sleep_time (debug_log (play fd t s1))
           = map log_sleep_time (debug_log s) @ [duration_cast_ms (dsub fd (render_time t))]
       \<and> sleep_time_at fd t s1 =
           duration_cast_ms (dsub fd (render_time t))
           + duration_cast_ms (dmul (double_of_int (sint (video_frame_diff_at t s1))) fd)
       \<and> sleeps (play fd t s1) =
           sleeps s @ (if 0 < sleep_time_at fd t s1 \<and> sleep_time_at fd t s1 < sint (max_sleep_ms s)
                       then [of_int (sleep_time_at fd t s1)] else [])
       \<and> (duration_cast_ms (dsub fd (render_time t)) < sleep_time_at fd t s1
            \<longleftrightarrow> 1 \<le> dmul (double_of_int (sint (video_frame_diff_at t s1))) fd)
       \<and> (0 \<le> fd \<longrightarrow> duration_cast_ms (dsub fd (render_time t)) \<le> sleep_time_at fd t s1)"
proof -
  let ?p = "dmul (double_of_int (sint (video_frame_diff_at t s1))) fd"
  have run: "run_iteration fd t s = Inr (play fd t s1)"
    using assms(1,2) by (rule run_iteration_play)
  have keep: "debug_log s1 = debug_log s" "sleeps s1 = sleeps s" "max_sleep_ms s1 = max_sleep_ms s"
    using assms(1) by (rule acquire_keeps)+
  have logged: "map log_sleep_time (debug_log (play fd t s1))
      = map log_sleep_time (debug_log s) @ [duration_cast_ms (dsub fd (render_time t))]"
    by (simp only: play_logged_sleep_time keep)
  have eq: "sleep_time_at fd t s1 = duration_cast_ms (dsub fd (render_time t)) + duration_cast_ms ?p"
    using assms(5) by (rule sleep_time_at_ahead)
  have slept: "sleeps (play fd t s1) =
      sleeps s @ (if 0 < sleep_time_at fd t s1 \<and> sleep_time_at fd t s1 < sint (max_sleep_ms s)
                  then [of_int (sleep_time_at fd t s1)] else [])"
    by (simp only: play_sleeps keep)
  have strict: "0 < duration_cast_ms ?p \<longleftrightarrow> 1 \<le> ?p"
    using toward_zero_ge_1 [of ?p] unfolding duration_cast_ms_def by linarith
  have "0 \<le> sint (video_frame_diff_at t s1)"
    using diff_positive [OF assms(5)] by simp
  then have "0 \<le> double_of_int (sint (video_frame_diff_at t s1))"
    by (rule double_of_int_nonneg)
  then have "0 \<le> ?p" if "0 \<le> fd"
    using that by (rule dmul_nonneg)
  then have "0 \<le> duration_cast_ms ?p" if "0 \<le> fd"
    using that by (simp add: duration_cast_ms_def toward_zero_def)
  with run logged eq slept strict show ?thesis
    by simp
qed

text \<open>At 24 frames per second, the video 15 frames ahead: 41 ms and 625 ms more. At 24000/1001
  frames per second, 24 frames ahead: 41 ms and 1000 ms more, the product being below 1001.\<close>

theorem drift_sleep_time_witness:
  "frame_duration_of info_24fps = Some fd_24fps
   \<and> sleep_time_at fd_24fps ahead_tick (projr (acquire ahead_tick (player_at 99 1 99))) = 41 + 625
   \<and> sleeps (play fd_24fps ahead_tick (projr (acquire ahead_tick (player_at 99 1 99)))) = [666]
   \<and> frame_duration_of info_ntsc = Some fd_ntsc
   \<and> sint (video_frame_diff_at ntsc_tick (projr (acquire ntsc_tick (player_at 99 1 99)))) = 24
   \<and> sleep_time_at fd_ntsc ntsc_tick (projr (acquire ntsc_tick (player_at 99 1 99))) = 41 + 1000
   \<and> sleeps (play fd_ntsc ntsc_tick (projr (acquire ntsc_tick (player_at 99 1 99)))) = [1041]"
proof -
  let ?s = "player_at 99 1 99"
  let ?a = "projr (acquire ahead_tick ?s)"
  let ?b = "projr (acquire ntsc_tick ?s)"
  have fa: "frame_duration_of info_24fps = Some fd_24fps"
    and fb: "frame_duration_of info_ntsc = Some fd_ntsc"
    by code_simp+
  have a: "acquire ahead_tick ?s = Inr ?a" and b: "acquire ntsc_tick ?s = Inr ?b"
    by code_simp+
  have ga: "\<not> pause_guard (reader ahead_tick) ?a" and gb: "\<not> pause_guard (reader ntsc_tick) ?b"
    by code_simp+
  have au: "has_audio (info (reader ahead_tick))" "has_video (info (reader ahead_tick))"
    "has_audio (info (reader ntsc_tick))" "has_video (info (reader ntsc_tick))"
    by (simp_all add: ahead_tick_def ntsc_tick_def tick_of_def info_24fps_def info_ntsc_def)
  have da: "0 <s video_frame_diff_at ahead_tick ?a" and db: "0 <s video_frame_diff_at ntsc_tick ?b"
    by code_simp+
  have vb: "sint (video_frame_diff_at ntsc_tick ?b) = 24"
    by code_simp
  have ua: "duration_cast_ms (dsub fd_24fps (render_time ahead_tick)) = 41"
    and wa: "duration_cast_ms (dmul (double_of_int (sint (video_frame_diff_at ahead_tick ?a))) fd_24fps) = 625"
    and ub: "duration_cast_ms (dsub fd_ntsc (render_time ntsc_tick)) = 41"
    and wb: "duration_cast_ms (dmul (double_of_int (sint (video_frame_diff_at ntsc_tick ?b))) fd_ntsc) = 1000"
    by code_simp+
  have k: "sleeps ?s = []" "sint (max_sleep_ms ?s) = 3000"
    by (simp_all add: player_at_def PlayerPrivate_new_def)
  note A = drift_sleep_time [OF a ga au(1,2) da, of fd_24fps]
  note B = drift_sleep_time [OF b gb au(3,4) db, of fd_ntsc]
  from A have sa: "sleep_time_at fd_24fps ahead_tick ?a = 41 + 625"
    unfolding ua wa by (rule conjunct1 [OF conjunct2 [OF conjunct2]])
  from B have sb: "sleep_time_at fd_ntsc ntsc_tick ?b = 41 + 1000"
    unfolding ub wb by (rule conjunct1 [OF conjunct2 [OF conjunct2]])
  from A have "sleeps (play fd_24fps ahead_tick ?a) =
      sleeps ?s @ (if 0 < sleep_time_at fd_24fps ahead_tick ?a
                      \<and> sleep_time_at fd_24fps ahead_tick ?a < sint (max_sleep_ms ?s)
                   then [of_int (sleep_time_at fd_24fps ahead_tick ?a)] else [])"
    by (rule conjunct1 [OF conjunct2 [OF conjunct2 [OF conjunct2]]])
  then have la: "sleeps (play fd_24fps ahead_tick ?a) = [666]"
    unfolding sa k by simp
  from B have "sleeps (play fd_ntsc ntsc_tick ?b) =
      sleeps ?s @ (if 0 < sleep_time_at fd_ntsc ntsc_tick ?b
                      \<and> sleep_time_at fd_ntsc ntsc_tick ?b < sint (max_sleep_ms ?s)
                   then [of_int (sleep_time_at fd_ntsc ntsc_tick ?b)] else [])"
    by (rule conjunct1 [OF conjunct2 [OF conjunct2 [OF conjunct2]]])
  then have lb: "sleeps (play fd_ntsc ntsc_tick ?b) = [1041]"
    unfolding sb k by simp
  from fa sa la fb vb sb lb show ?thesis
    by (intro conjI)
qed

section \<open>Whole milliseconds\<close>

text \<open>Claim C10. \<^verbatim>\<open>duration_cast<ms>\<close> gives whole milliseconds, cut towards zero: the result
  is no greater in size than its argument and less than 1 away from it. In an iteration that
  passes the pausing code, the sleep time of line 107, which the iteration logs, is that cut of
  \<open>frame_duration - render_time\<close>; it is the sleep time of line 134 when the drift is between
  \<open>-10\<close> and 0, and for a positive drift the cut of \<open>video_frame_diff * frame_duration\<close> is
  added. So for a positive \<open>video_frame_diff\<close> and a frame duration that is not negative,
  with the product \<open>video_frame_diff * frame_duration\<close> of line 121 below 1 ms, the
  adjustment adds 0 and the sleep time stays as it was. Difference and product are the
  doubles the code forms.\<close>

theorem sleep_time_whole_ms:
  assumes "acquire t s = Inr s1" and "\<not> pause_guard (reader t) s1"
  shows "run_iteration fd t s = Inr (play fd t s1)
       \<and> \<bar>of_int (duration_cast_ms x)\<bar> \<le> \<bar>x\<bar> \<and> \<bar>x - of_int (duration_cast_ms x)\<bar> < 1
       \<and> map log_sleep_time (debug_log (play fd t s1))
           = map log_sleep_time (debug_log s) @ [duration_cast_ms (dsub fd (render_time t))]
       \<and> sleeps (play fd t s1) =
           sleeps s @ (if 0 < sleep_time_at fd t s1 \<and> sleep_time_at fd t s1 < sint (max_sleep_ms s)
                       then [of_int (sleep_time_at fd t s1)] else [])
       \<and> (\<not> 0 <s video_frame_diff_at t s1 \<and> \<not> video_frame_diff_at t s1 <s - 10
            \<longrightarrow> sleep_time_at fd t s1 = duration_cast_ms (dsub fd (render_time t)))
       \<and> (0 <s video_frame_diff_at t s1
            \<longrightarrow> sleep_time_at fd t s1 =
                  duration_cast_ms (dsub fd (render_time t))
                  + duration_cast_ms (dmul (double_of_int (sint (video_frame_diff_at t s1))) fd))
       \<and> (0 <s video_frame_diff_at t s1 \<and> 0 \<le> fd
            \<and> dmul (double_of_int (sint (video_frame_diff_at t s1))) fd < 1
            \<longrightarrow> duration_cast_ms (dmul (double_of_int (sint (video_frame_diff_at t s1))) fd) = 0
                \<and> sleep_time_at fd t s1 = duration_cast_ms (dsub fd (render_time t)))"
proof -
  let ?d = "video_frame_diff_at t s1"
  let ?p = "dmul (double_of_int (sint ?d)) fd"
  have run: "run_iteration fd t s = Inr (play fd t s1)"
    using assms by (rule run_iteration_play)
  have keep: "debug_log s1 = debug_log s" "sleeps s1 = sleeps s" "max_sleep_ms s1 = max_sleep_ms s"
    using assms(1) by (rule acquire_keeps)+
  have logged: "map log_sleep_time (debug_log (play fd t s1))
      = map log_sleep_time (debug_log s) @ [duration_cast_ms (dsub fd (render_time t))]"
    by (simp only: play_logged_sleep_time keep)
  have slept: "sleeps (play fd t s1) =
      sleeps s @ (if 0 < sleep_time_at fd t s1 \<and> sleep_time_at fd t s1 < sint (max_sleep_ms s)
                  then [of_int (sleep_time_at fd t s1)] else [])"
    by (simp only: play_sleeps keep)
  have cut: "\<bar>of_int (duration_cast_ms x)\<bar> \<le> \<bar>x\<bar> \<and> \<bar>x - of_int (duration_cast_ms x)\<bar> < 1"
    using toward_zero_between [of x] by (simp only: duration_cast_ms_def)
  have none: "duration_cast_ms ?p = 0"
    if h: "0 <s ?d \<and> 0 \<le> fd \<and> ?p < 1"
  proof -
    from h have "0 \<le> sint ?d"
      using diff_positive [of ?d] by simp
    then have "0 \<le> double_of_int (sint ?d)"
      by (rule double_of_int_nonneg)
    with h have "0 \<le> ?p"
      by (intro dmul_nonneg) simp_all
    with h show ?thesis
      by (simp add: duration_cast_ms_def toward_zero_small)
  qed
  then have both: "duration_cast_ms ?p = 0
      \<and> sleep_time_at fd t s1 = duration_cast_ms (dsub fd (render_time t))"
    if h: "0 <s ?d \<and> 0 \<le> fd \<and> ?p < 1"
    using that sleep_time_at_ahead [of t s1 fd] by simp
  from run cut logged slept both sleep_time_at_near [of t s1 fd] sleep_time_at_ahead [of t s1 fd]
  show ?thesis
    by blast
qed

text \<open>At 49000 frames per second, the video 49 frames ahead: the product is below 1 ms and adds
  nothing to the 0 ms of line 107.\<close>

theorem sleep_time_whole_ms_witness:
  "frame_duration_of info_49000fps = Some fd_49000fps
   \<and> sint (video_frame_diff_at fast_tick (projr (acquire fast_tick (player_at 58 1 58)))) = 49
   \<and> dmul (double_of_int (sint (video_frame_diff_at fast_tick (projr (acquire fast_tick (player_at 58 1 58))))))
        fd_49000fps = 9007199254740991 / 9007199254740992
   \<and> sleep_time_at fd_49000fps fast_tick (projr (acquire fast_tick (player_at 58 1 58)))
       = duration_cast_ms (dsub fd_49000fps (render_time fast_tick))
   \<and> map log_sleep_time (debug_log (play fd_49000fps fast_tick (projr (acquire fast_tick (player_at 58 1 58)))))
       = [0]"
proof -
  let ?s = "player_at 58 1 58"
  let ?a = "projr (acquire fast_tick ?s)"
  have f: "frame_duration_of info_49000fps = Some fd_49000fps"
    by code_simp
  have a: "acquire fast_tick ?s = Inr ?a"
    by code_simp
  have g: "\<not> pause_guard (reader fast_tick) ?a"
    by code_simp
  have d: "0 <s video_frame_diff_at fast_tick ?a"
    by code_simp
  have v: "sint (video_frame_diff_at fast_tick ?a) = 49"
    by code_simp
  have m: "dmul (double_of_int (sint (video_frame_diff_at fast_tick ?a))) fd_49000fps
      = 9007199254740991 / 9007199254740992"
    by code_simp
  have n: "(0 :: real) \<le> fd_49000fps"
    by (simp add: fd_49000fps_def)
  have l: "dmul (double_of_int (sint (video_frame_diff_at fast_tick ?a))) fd_49000fps < 1"
    unfolding m by simp
  have u: "duration_cast_ms (dsub fd_49000fps (render_time fast_tick)) = 0"
    by code_simp
  have k: "map log_sleep_time (debug_log ?s) = []"
    by (simp add: player_at_def PlayerPrivate_new_def)
  note T = sleep_time_whole_ms [OF a g, of fd_49000fps 0]
  from T d n l
  have 1: "sleep_time_at fd_49000fps fast_tick ?a = duration_cast_ms (dsub fd_49000fps (render_time fast_tick))"
    by blast
  from T have "map log_sleep_time (debug_log (play fd_49000fps fast_tick ?a))
      = map log_sleep_time (debug_log ?s) @ [duration_cast_ms (dsub fd_49000fps (render_time fast_tick))]"
    by blast
  then have 2: "map log_sleep_time (debug_log (play fd_49000fps fast_tick ?a)) = [0]"
    unfolding k u by simp
  from f v m 1 2 show ?thesis
    by (intro conjI)
qed

end
